theory Spec2Isabelle
  imports
    Main
    "HOL-Library.Char_ord"
    "HOL-Library.List_Lexorder"
    "HOL-Library.Product_Lexorder"
begin

section \<open>Python values the annotator works with\<close>

text \<open>
  Strings are byte strings: a Python \<open>str\<close> is taken in its UTF-8 encoding. Comparing
  two strings by code points, as Python does, is comparing their UTF-8 bytes, which is the
  order \<^theory_text>\<open>List_Lexorder\<close> and \<^theory_text>\<open>Char_ord\<close> give to \<^typ>\<open>string\<close>.
\<close>

datatype py_error =
    IndexError
  | KeyError string
  | TypeError string
  | ValueError string
  | FileNotFoundError string
  | OtherException string
  | OSError
  | CsvError string
  | OutsideModel string

text \<open>\<open>xs[i]\<close>: a negative index counts from the end, an index out of range raises.\<close>

definition getitem :: "'a list \<Rightarrow> int \<Rightarrow> 'a option" where
  "getitem xs i =
     (let n = int (length xs); j = (if i < 0 then n + i else i)
      in if 0 \<le> j \<and> j < n then Some (xs ! nat j) else None)"

text \<open>\<open>str(n)\<close> for an integer.\<close>

definition digit_char :: "nat \<Rightarrow> char" where
  "digit_char d = ''0123456789'' ! d"

fun str_nat :: "nat \<Rightarrow> string" where
  "str_nat n = (if n < 10 then [digit_char n] else str_nat (n div 10) @ [digit_char (n mod 10)])"

declare str_nat.simps [simp del]

definition str_int :: "int \<Rightarrow> string" where
  "str_int i = (if i < 0 then CHR ''-'' # str_nat (nat (- i)) else str_nat (nat i))"

text \<open>
  \<open>s.lower()\<close> and \<open>s.endswith(suffixes)\<close>. Only the ASCII letters are lowered: no
  character outside ASCII lowers to a character of one of the extensions below, so the
  test made with them is the same.
\<close>

definition lower_char :: "char \<Rightarrow> char" where
  "lower_char c =
     (if CHR ''A'' \<le> c \<and> c \<le> CHR ''Z'' then char_of (of_char c + (32 :: nat)) else c)"

definition lower :: "string \<Rightarrow> string" where
  "lower s = map lower_char s"

definition endswith :: "string \<Rightarrow> string list \<Rightarrow> bool" where
  "endswith s sufs =
     list_ex (\<lambda>t. length t \<le> length s \<and> drop (length s - length t) s = t) sufs"

section \<open>Double precision arithmetic\<close>

text \<open>
  \<open>display_image\<close> scales with Python floats. A float is kept here as a pair \<open>(m, e)\<close>
  that stands for \<open>m * 2 ^ e\<close>; every operation computes the exact result and rounds it
  to 53 significant bits, ties to even, as IEEE 754 binary64 does. The exponent is not
  bounded: overflow, underflow and subnormal numbers are out of reach of image sizes.
\<close>

type_synonym binary64 = "int \<times> int"

fun bitlen_nat :: "nat \<Rightarrow> nat" where
  "bitlen_nat n = (if n = 0 then 0 else Suc (bitlen_nat (n div 2)))"

declare bitlen_nat.simps [simp del]

text \<open>The integer nearest to \<open>p / q\<close> for \<open>0 < q\<close>, the even one of two equally near.\<close>

definition round_half_even :: "int \<Rightarrow> int \<Rightarrow> int" where
  "round_half_even p q =
     (let d = p div q; r = p mod q
      in if 2 * r < q then d
         else if q < 2 * r then d + 1
         else if even d then d else d + 1)"

text \<open>\<open>2 ^ k \<le> p / q\<close>, for \<open>0 < q\<close> and any integer \<open>k\<close>.\<close>

definition pow2_le :: "int \<Rightarrow> int \<Rightarrow> int \<Rightarrow> bool" where
  "pow2_le k p q = (if 0 \<le> k then q * 2 ^ nat k \<le> p else q \<le> p * 2 ^ nat (- k))"

text \<open>The double nearest to \<open>p / q\<close>, for \<open>0 < q\<close>.\<close>

definition round_binary64 :: "int \<Rightarrow> int \<Rightarrow> binary64" where
  "round_binary64 p q =
     (if p = 0 then (0, 0)
      else
        let k = int (bitlen_nat (nat \<bar>p\<bar>)) - int (bitlen_nat (nat q));
            e = (if pow2_le k \<bar>p\<bar> q then k else k - 1);
            s = 52 - e
        in if 0 \<le> s then (round_half_even (p * 2 ^ nat s) q, - s)
           else (round_half_even p (q * 2 ^ nat (- s)), - s))"

text \<open>\<open>a / b\<close> on integers (true division), \<open>float(n) * x\<close> and \<open>int(x)\<close>.\<close>

definition truediv :: "int \<Rightarrow> int \<Rightarrow> binary64 option" where
  "truediv a b =
     (if b = 0 then None
      else if 0 < b then Some (round_binary64 a b)
      else Some (round_binary64 (- a) (- b)))"

definition round_dyadic :: "int \<Rightarrow> int \<Rightarrow> binary64" where
  "round_dyadic m e =
     (if 0 \<le> e then round_binary64 (m * 2 ^ nat e) 1 else round_binary64 m (2 ^ nat (- e)))"

definition int_times_float :: "int \<Rightarrow> binary64 \<Rightarrow> binary64" where
  "int_times_float n x =
     (case round_binary64 n 1 of (m, e) \<Rightarrow> round_dyadic (m * fst x) (e + snd x))"

definition int_of_float :: "binary64 \<Rightarrow> int" where
  "int_of_float x =
     (case x of (m, e) \<Rightarrow>
        if 0 \<le> e then m * 2 ^ nat e
        else if 0 \<le> m then m div 2 ^ nat (- e)
        else - ((- m) div 2 ^ nat (- e)))"

section \<open>The annotator and its collaborators\<close>

text \<open>
  What the program takes from outside: the names \<open>os.listdir\<close> returns for a folder
  (\<open>None\<close> when it raises), the size \<open>Image.open\<close> reports for a file (\<open>Inl\<close> the text
  of the exception when the file cannot be opened as an image) and the size
  \<open>Image.thumbnail\<close> leaves for a bounding box (\<open>Inl\<close> the text of the exception when it
  raises, as it does for a box that is not positive). The imaging library is not part of
  the repository, so its functions are parameters of the model.
\<close>

record env =
  listdir :: "string \<Rightarrow> string list option"
  image_open :: "string \<Rightarrow> string \<Rightarrow> string + (int \<times> int)"
  thumbnail :: "int \<times> int \<Rightarrow> int \<times> int \<Rightarrow> string + (int \<times> int)"

datatype pane = PaneText string | PaneImage "int \<times> int"

datatype dialog = ShowWarning string string | ShowError string string

text \<open>
  The fields of \<open>ImageAnnotator\<close>, the texts its widgets show, the annotations file on
  disk (\<open>None\<close> while it does not exist) and the message boxes shown so far. The two sizes
  of the configuration are integers here. \<open>annotations\<close> is the dictionary as a list of
  items with distinct keys, in insertion order.
\<close>

record annotator =
  classes :: "string list"
  annotations_file :: string
  resized_image_size :: int
  max_display_size :: int
  image_folder :: string
  images :: "string list"
  current_index :: int
  annotations :: "(string \<times> int) list"
  selected_class :: int
  original_display :: pane
  resized_image_label :: "(int \<times> int) option"
  filename_label :: string
  progress_label :: string
  stats_labels :: "string list"
  store :: "string option"
  dialogs :: "dialog list"

text \<open>\<open>d[k] = v\<close> and \<open>d.get(k)\<close> on the list of items.\<close>

fun setitem :: "string \<Rightarrow> int \<Rightarrow> (string \<times> int) list \<Rightarrow> (string \<times> int) list" where
  "setitem k v [] = [(k, v)]"
| "setitem k v ((k', v') # d) = (if k' = k then (k, v) # d else (k', v') # setitem k v d)"

section \<open>Writing the annotations file\<close>

text \<open>
  \<open>csv.writer\<close> with its default dialect: a field holding a comma, a double quote, a
  carriage return or a line feed is written between double quotes with every double quote
  doubled; fields are joined by commas and the row ends with \<open>\r\n\<close>. A row that is one
  empty field is written as two double quotes.
\<close>

definition needs_quote :: "char \<Rightarrow> bool" where
  "needs_quote c = (c = CHR 0x2C \<or> c = CHR 0x22 \<or> c = CHR 0x0D \<or> c = CHR 0x0A)"

definition double_quotes :: "string \<Rightarrow> string" where
  "double_quotes f = concat (map (\<lambda>c. if c = CHR 0x22 then [CHR 0x22, CHR 0x22] else [c]) f)"

definition quote_field :: "string \<Rightarrow> string" where
  "quote_field f =
     (if list_ex needs_quote f then [CHR 0x22] @ double_quotes f @ [CHR 0x22] else f)"

fun join_fields :: "string list \<Rightarrow> string" where
  "join_fields [] = []"
| "join_fields [f] = f"
| "join_fields (f # g # fs) = f @ [CHR 0x2C] @ join_fields (g # fs)"

definition writerow :: "string list \<Rightarrow> string" where
  "writerow row =
     (if row = [[]] then [CHR 0x22, CHR 0x22] else join_fields (map quote_field row))
     @ [CHR 0x0D, CHR 0x0A]"

text \<open>
  The loop of \<open>save_annotations\<close>: \<open>self.classes[class_idx]\<close> is looked up before the row
  is written, so an index out of range stops the loop with what was written before it.
\<close>

fun write_rows :: "string list \<Rightarrow> (string \<times> int) list \<Rightarrow> string \<Rightarrow> py_error option \<times> string" where
  "write_rows cls [] out = (None, out)"
| "write_rows cls ((img, class_idx) # rest) out =
     (case getitem cls class_idx of
        None \<Rightarrow> (Some IndexError, out)
      | Some class_name \<Rightarrow>
          write_rows cls rest (out @ writerow [img, str_int class_idx, class_name]))"

definition header_row :: string where
  "header_row = writerow [''filename'', ''class_index'', ''class_name'']"

text \<open>
  \<open>save_annotations\<close>: the file is opened for writing (so it is emptied), the header and
  the rows are written, and leaving the \<open>with\<close> block closes it, also when the loop raised.
\<close>

definition save_annotations :: "annotator \<Rightarrow> py_error option \<times> annotator" where
  "save_annotations s =
     (case write_rows (classes s) (sort (annotations s)) header_row of
        (e, out) \<Rightarrow> (e, s\<lparr>store := Some out\<rparr>))"

section \<open>Showing the current image\<close>

definition max_original_side :: "int \<times> int \<Rightarrow> int" where
  "max_original_side original_size = max (fst original_size) (snd original_size)"

text \<open>
  The size of the resized image: enlarged by \<open>scale\<close> when the longest side is below the
  target, reduced by the library's \<open>thumbnail\<close> when it is above, kept when it is equal.
  \<open>Inl\<close> is the text of the exception raised on the way: the \<open>ZeroDivisionError\<close> of
  \<open>scale\<close> for an image without pixels, or whatever \<open>thumbnail\<close> raises.
\<close>

definition resized_size :: "env \<Rightarrow> int \<Rightarrow> int \<times> int \<Rightarrow> string + (int \<times> int)" where
  "resized_size env target original_size =
     (if max_original_side original_size < target then
        (case truediv target (max_original_side original_size) of
           None \<Rightarrow> Inl ''division by zero''
         | Some scale \<Rightarrow>
             Inr (int_of_float (int_times_float (fst original_size) scale),
                  int_of_float (int_times_float (snd original_size) scale)))
      else if max_original_side original_size > target then
        thumbnail env original_size (target, target)
      else Inr original_size)"

definition too_large_message :: "int \<times> int \<Rightarrow> string" where
  "too_large_message original_size =
     ''Image too large'' @ [CHR 0x0A] @
     ''('' @ str_int (fst original_size) @ ''x'' @ str_int (snd original_size) @ ''px)'' @
     [CHR 0x0A, CHR 0x0A, CHR 0xE2, CHR 0x86, CHR 0x92] @ '' See resized'' @ [CHR 0x0A] @
     ''version''"

definition size_text :: "int \<times> int \<Rightarrow> string" where
  "size_text sz = str_int (fst sz) @ ''x'' @ str_int (snd sz) @ ''px''"

definition progress_text :: "annotator \<Rightarrow> string" where
  "progress_text s =
     ''Image '' @ str_int (current_index s + 1) @ '' / '' @ str_int (int (length (images s))) @
     '' ('' @ str_int (int (length (annotations s))) @ '' annotated)''"

definition cannot_load :: "string \<Rightarrow> annotator \<Rightarrow> annotator" where
  "cannot_load msg s = s\<lparr>dialogs := dialogs s @ [ShowError ''Error'' (''Cannot load image: '' @ msg)]\<rparr>"

text \<open>
  \<open>display_image\<close>. The name of the current image is read before the \<open>try\<close>, so an index
  out of range is raised to the caller; every exception after it is caught and shown in a
  message box, leaving what was set before it.
\<close>

definition display_image :: "env \<Rightarrow> annotator \<Rightarrow> py_error option \<times> annotator" where
  "display_image env s =
     (if images s = [] then (None, s)
      else
        case getitem (images s) (current_index s) of
          None \<Rightarrow> (Some IndexError, s)
        | Some current_image \<Rightarrow>
            (case image_open env (image_folder s) current_image of
               Inl msg \<Rightarrow> (None, cannot_load msg s)
             | Inr original_size \<Rightarrow>
                 let s1 = s\<lparr>original_display :=
                            (if max_original_side original_size \<le> resized_image_size s
                             then PaneImage original_size
                             else PaneText (too_large_message original_size))\<rparr>
                 in (case resized_size env (resized_image_size s) original_size of
                       Inl msg \<Rightarrow> (None, cannot_load msg s1)
                     | Inr rs \<Rightarrow>
                         (None,
                          s1\<lparr>resized_image_label := Some rs,
                             filename_label :=
                               current_image @ '' - Original: '' @ size_text original_size @
                               '' | Resized: '' @ size_text rs,
                             progress_label := progress_text s,
                             selected_class :=
                               (case map_of (annotations s) current_image of
                                  Some c \<Rightarrow> c
                                | None \<Rightarrow> - 1)\<rparr>))))"

section \<open>Folder selection and navigation\<close>

definition extensions :: "string list" where
  "extensions = [''.png'', ''.jpg'', ''.jpeg'', ''.bmp'', ''.gif'', ''.tiff'']"

definition load_images :: "env \<Rightarrow> annotator \<Rightarrow> py_error option \<times> annotator" where
  "load_images env s =
     (case listdir env (image_folder s) of
        None \<Rightarrow> (Some OSError, s)
      | Some names \<Rightarrow>
          let s1 = s\<lparr>images := sort (filter (\<lambda>f. endswith (lower f) extensions) names)\<rparr>
          in if images s1 \<noteq> [] then display_image env (s1\<lparr>current_index := 0\<rparr>)
             else (None,
                   s1\<lparr>dialogs := dialogs s1 @
                        [ShowWarning ''Warning'' ''No images found in this folder'']\<rparr>))"

text \<open>\<open>folder\<close> is what the directory dialog returned, the empty string when cancelled.\<close>

definition select_folder :: "env \<Rightarrow> string \<Rightarrow> annotator \<Rightarrow> py_error option \<times> annotator" where
  "select_folder env folder s =
     (if folder \<noteq> [] then load_images env (s\<lparr>image_folder := folder\<rparr>) else (None, s))"

definition previous_image :: "env \<Rightarrow> annotator \<Rightarrow> py_error option \<times> annotator" where
  "previous_image env s =
     (if images s \<noteq> [] \<and> current_index s > 0
      then display_image env (s\<lparr>current_index := current_index s - 1\<rparr>)
      else (None, s))"

definition next_image :: "env \<Rightarrow> annotator \<Rightarrow> py_error option \<times> annotator" where
  "next_image env s =
     (if images s \<noteq> [] \<and> current_index s < int (length (images s)) - 1
      then display_image env (s\<lparr>current_index := current_index s + 1\<rparr>)
      else (None, s))"

section \<open>Selecting a class\<close>

definition class_counts :: "string list \<Rightarrow> (string \<times> int) list \<Rightarrow> nat list" where
  "class_counts cls ann =
     fold (\<lambda>class_idx counts.
             if 0 \<le> class_idx \<and> class_idx < int (length cls)
             then counts[nat class_idx := counts ! nat class_idx + 1]
             else counts)
          (map snd ann) (replicate (length cls) 0)"

definition update_statistics :: "annotator \<Rightarrow> annotator" where
  "update_statistics s =
     s\<lparr>stats_labels :=
         map (\<lambda>(class_name, count). class_name @ '': '' @ str_nat count)
             (zip (classes s) (class_counts (classes s) (annotations s)))\<rparr>"

definition on_class_selected :: "annotator \<Rightarrow> py_error option \<times> annotator" where
  "on_class_selected s =
     (if images s \<noteq> [] \<and> selected_class s \<ge> 0 then
        (case getitem (images s) (current_index s) of
           None \<Rightarrow> (Some IndexError, s)
         | Some current_image \<Rightarrow>
             (case save_annotations
                     (s\<lparr>annotations := setitem current_image (selected_class s) (annotations s)\<rparr>) of
                (Some e, s2) \<Rightarrow> (Some e, s2)
              | (None, s2) \<Rightarrow>
                  (None, (update_statistics s2)\<lparr>progress_label := progress_text s2\<rparr>)))
      else (None, s))"

definition select_class_by_key :: "int \<Rightarrow> annotator \<Rightarrow> py_error option \<times> annotator" where
  "select_class_by_key class_index s = on_class_selected (s\<lparr>selected_class := class_index\<rparr>)"

text \<open>
  The states the window can be in: it starts with no images and the cursor at 0, and every
  callback runs to its end or to an exception, after which the window goes on.
\<close>

inductive reachable :: "annotator \<Rightarrow> bool" where
  after_start: "images s = [] \<Longrightarrow> current_index s = 0 \<Longrightarrow> reachable s"
| after_folder: "reachable s \<Longrightarrow> reachable (snd (select_folder env folder s))"
| after_previous: "reachable s \<Longrightarrow> reachable (snd (previous_image env s))"
| after_next: "reachable s \<Longrightarrow> reachable (snd (next_image env s))"
| after_key: "reachable s \<Longrightarrow> reachable (snd (select_class_by_key class_index s))"
| after_radio: "reachable s \<Longrightarrow> reachable (snd (on_class_selected s))"
| after_save: "reachable s \<Longrightarrow> reachable (snd (save_annotations s))"

definition cursor_valid :: "annotator \<Rightarrow> bool" where
  "cursor_valid s =
     (images s = [] \<or> (0 \<le> current_index s \<and> current_index s < int (length (images s))))"

section \<open>A library stand-in and a sample session\<close>

text \<open>
  Modelled from the spec: \<open>Image.thumbnail\<close> belongs to the imaging library and is not in
  the repository. The spec describes it as downscaling uniformly so that the longer side
  equals the bound, both axes from the same factor and floored. The factor is taken
  exactly here. The sample library below answers with it for a positive box and raises
  for any other.
\<close>

definition thumbnail_spec :: "int \<times> int \<Rightarrow> int \<times> int \<Rightarrow> int \<times> int" where
  "thumbnail_spec original_size box =
     (fst original_size * fst box div max_original_side original_size,
      snd original_size * fst box div max_original_side original_size)"

definition demo_env :: env where
  "demo_env =
     \<lparr>listdir = (\<lambda>folder. if folder = ''shots''
                           then Some [''d.bmp'', ''b.PNG'', ''notes.txt'', ''a.jpg'', ''c.gif'']
                           else if folder = ''docs'' then Some [''notes.txt'']
                           else if folder = ''big'' then Some [''d.bmp'']
                           else None),
      image_open = (\<lambda>folder name.
                      if name = ''a.jpg'' then Inr (50, 100)
                      else if name = ''c.gif'' then Inr (4000, 2000)
                      else if name = ''d.bmp'' then Inr (500, 500)
                      else Inl ''cannot identify image file''),
      thumbnail = (\<lambda>original_size box.
                     if 0 < fst box \<and> 0 < snd box then Inr (thumbnail_spec original_size box)
                     else Inl ''division by zero'')\<rparr>"

definition demo_start :: annotator where
  "demo_start =
     \<lparr>classes = [''column'', ''plate''],
      annotations_file = ''annotations.csv'',
      resized_image_size = 100,
      max_display_size = 800,
      image_folder = [],
      images = [],
      current_index = 0,
      annotations = [],
      selected_class = - 1,
      original_display = PaneText [],
      resized_image_label = None,
      filename_label = [],
      progress_label = ''No images loaded'',
      stats_labels = [''column: 0'', ''plate: 0''],
      store = None,
      dialogs = []\<rparr>"

definition demo_loaded :: annotator where
  "demo_loaded = snd (select_folder demo_env ''shots'' demo_start)"

definition demo_second :: annotator where
  "demo_second = snd (next_image demo_env demo_loaded)"

text \<open>A session that starts with one annotation loaded from an earlier run.\<close>

definition demo_resumed :: annotator where
  "demo_resumed = snd (select_folder demo_env ''shots'' (demo_start\<lparr>annotations := [(''b.PNG'', 0)]\<rparr>))"

text \<open>The row \<open>save_annotations\<close> writes for one item of the dictionary.\<close>

definition row_text :: "string list \<Rightarrow> string \<times> int \<Rightarrow> string" where
  "row_text cls item =
     writerow [fst item, str_int (snd item),
               (case getitem cls (snd item) of Some class_name \<Rightarrow> class_name | None \<Rightarrow> [])]"

definition demo_negative :: annotator where
  "demo_negative = demo_start\<lparr>annotations := [(''a.jpg'', - 1)]\<rparr>"

definition demo_beyond :: annotator where
  "demo_beyond = demo_start\<lparr>annotations := [(''b.PNG'', 5), (''a.jpg'', 1)]\<rparr>"

section \<open>Loading the configuration\<close>

text \<open>
  What \<open>json.load\<close> returns. A JSON object is kept as its members in file order; looking
  a key up finds the last member with that key, as the Python dictionary does.
\<close>

datatype json =
    JNull
  | JBool bool
  | JInt int
  | JFloat binary64
  | JString string
  | JList "json list"
  | JObject "(string \<times> json) list"

definition dict_get :: "(string \<times> json) list \<Rightarrow> string \<Rightarrow> json option" where
  "dict_get payload k = map_of (rev payload) k"

text \<open>
  What is found at the path of \<open>config.json\<close>: nothing, a file that cannot be read (with
  the text of the exception), a file that is not JSON (with the text of the decoder's
  error), or a JSON object.
\<close>

datatype config_file =
    NoFile
  | Unreadable string
  | InvalidJson string
  | Payload "(string \<times> json) list"

text \<open>The four attributes \<open>load_config\<close> sets, as the values found in the file.\<close>

record config =
  classes_value :: "json list"
  annotations_file_value :: json
  resized_image_size_value :: json
  max_display_size_value :: json

definition line_feed :: string where
  "line_feed = [CHR 0x0A]"

definition field_required :: "string \<Rightarrow> string" where
  "field_required k = ''The '' @ [CHR 0x27] @ k @ [CHR 0x27] @ '' field is required in the configuration file.''"

definition load_config :: "string \<Rightarrow> config_file \<Rightarrow> py_error + config" where
  "load_config path file =
     (case file of
        NoFile \<Rightarrow>
          Inl (FileNotFoundError
                 (''Configuration file '' @ [CHR 0x27] @ path @ [CHR 0x27] @ '' not found.'' @ line_feed @
                  ''Please create a config.json file in the same directory as the script.''))
      | InvalidJson e \<Rightarrow>
          Inl (ValueError
                 (''JSON format error in configuration file: '' @ e @ line_feed @
                  ''Please verify that config.json is valid JSON.''))
      | Unreadable e \<Rightarrow> Inl (OtherException (''Error reading configuration file: '' @ e))
      | Payload payload \<Rightarrow>
          (case dict_get payload ''classes'' of
             None \<Rightarrow> Inl (KeyError (field_required ''classes''))
           | Some (JList cls) \<Rightarrow>
               if length cls = 0 then
                 Inl (ValueError ''The configuration file must contain at least one class.'')
               else if length cls > 9 then
                 Inl (ValueError
                        (''Number of classes must not exceed 9 (currently '' @ str_nat (length cls) @
                         '').'' @ line_feed @ ''Keyboard shortcuts are limited to keys 1-9.''))
               else
                 (case dict_get payload ''annotations_file'' of
                    None \<Rightarrow> Inl (KeyError (field_required ''annotations_file''))
                  | Some file_name \<Rightarrow>
                      (case dict_get payload ''resized_image_size'' of
                         None \<Rightarrow> Inl (KeyError (field_required ''resized_image_size''))
                       | Some resized \<Rightarrow>
                           (case dict_get payload ''max_original_display_size'' of
                              None \<Rightarrow> Inl (KeyError (field_required ''max_original_display_size''))
                            | Some max_display \<Rightarrow>
                                Inr \<lparr>classes_value = cls,
                                     annotations_file_value = file_name,
                                     resized_image_size_value = resized,
                                     max_display_size_value = max_display\<rparr>)))
           | Some other \<Rightarrow> Inl (TypeError (''The '' @ [CHR 0x27] @ ''classes'' @ [CHR 0x27] @
                                            '' field must be a list of strings.''))))"

text \<open>The text of an exception, and \<open>t in s\<close> for strings.\<close>

fun message :: "py_error \<Rightarrow> string" where
  "message (KeyError m) = m"
| "message (TypeError m) = m"
| "message (ValueError m) = m"
| "message (FileNotFoundError m) = m"
| "message (OtherException m) = m"
| "message (CsvError m) = m"
| "message (OutsideModel m) = m"
| "message IndexError = ''list index out of range''"
| "message OSError = []"

fun str_contains :: "string \<Rightarrow> string \<Rightarrow> bool" where
  "str_contains [] t = (t = [])"
| "str_contains (c # s) t = (take (length t) (c # s) = t \<or> str_contains s t)"

definition required_keys :: "string list" where
  "required_keys = [''classes'', ''annotations_file'', ''resized_image_size'', ''max_original_display_size'']"

definition demo_payload :: "(string \<times> json) list" where
  "demo_payload =
     [(''classes'', JList [JString ''column'', JString ''plate'']),
      (''annotations_file'', JString ''annotations.csv''),
      (''resized_image_size'', JInt (- 5)),
      (''max_original_display_size'', JString ''large'')]"

definition demo_incomplete :: "(string \<times> json) list" where
  "demo_incomplete = [(''classes'', JList [JString ''column'']), (''resized_image_size'', JInt 100)]"

section \<open>Reading the annotations file\<close>

text \<open>
  \<open>load_previous_annotations\<close> opens the file in text mode without \<open>newline=''\<close>, so
  Python hands the text over with every \<open>\r\n\<close> and every lone \<open>\r\<close> turned into \<open>\n\<close>,
  and iterating the file yields its lines, each with its \<open>\n\<close>.
\<close>

fun universal_newlines :: "string \<Rightarrow> string" where
  "universal_newlines [] = []"
| "universal_newlines [c] = [if c = CHR 0x0D then CHR 0x0A else c]"
| "universal_newlines (c # d # s) =
     (if c = CHR 0x0D \<and> d = CHR 0x0A then CHR 0x0A # universal_newlines s
      else if c = CHR 0x0D then CHR 0x0A # universal_newlines (d # s)
      else c # universal_newlines (d # s))"

fun file_lines :: "string \<Rightarrow> string \<Rightarrow> string list" where
  "file_lines cur [] = (if cur = [] then [] else [cur])"
| "file_lines cur (c # s) =
     (if c = CHR 0x0A then (cur @ [c]) # file_lines [] s else file_lines (cur @ [c]) s)"

text \<open>
  \<open>csv.reader\<close> with its default dialect: the states of its parser that can be reached
  without an escape character, the field being collected and the fields of the record so
  far. \<open>parse_process_char\<close> is given a character, or \<open>None\<close> at the end of a line.
\<close>

datatype parse_state =
    START_RECORD
  | START_FIELD
  | IN_FIELD
  | IN_QUOTED_FIELD
  | QUOTE_IN_QUOTED_FIELD
  | EAT_CRNL

record reader =
  state_of :: parse_state
  field_of :: string
  fields_of :: "string list"

definition parse_reset :: reader where
  "parse_reset = \<lparr>state_of = START_RECORD, field_of = [], fields_of = []\<rparr>"

definition parse_save_field :: "reader \<Rightarrow> reader" where
  "parse_save_field r = r\<lparr>fields_of := fields_of r @ [field_of r], field_of := []\<rparr>"

definition parse_add_char :: "reader \<Rightarrow> char \<Rightarrow> reader" where
  "parse_add_char r c = r\<lparr>field_of := field_of r @ [c]\<rparr>"

definition line_end :: "char option \<Rightarrow> bool" where
  "line_end c = (c = None \<or> c = Some (CHR 0x0A) \<or> c = Some (CHR 0x0D))"

definition after_line_end :: "char option \<Rightarrow> parse_state" where
  "after_line_end c = (if c = None then START_RECORD else EAT_CRNL)"

definition start_field :: "reader \<Rightarrow> char option \<Rightarrow> reader" where
  "start_field r c =
     (if line_end c then (parse_save_field r)\<lparr>state_of := after_line_end c\<rparr>
      else if c = Some (CHR 0x22) then r\<lparr>state_of := IN_QUOTED_FIELD\<rparr>
      else if c = Some (CHR 0x2C) then parse_save_field r
      else (parse_add_char r (the c))\<lparr>state_of := IN_FIELD\<rparr>)"

definition parse_process_char :: "reader \<Rightarrow> char option \<Rightarrow> py_error + reader" where
  "parse_process_char r c =
     (case state_of r of
        START_RECORD \<Rightarrow>
          if c = None then Inr r
          else if line_end c then Inr (r\<lparr>state_of := EAT_CRNL\<rparr>)
          else Inr (start_field (r\<lparr>state_of := START_FIELD\<rparr>) c)
      | START_FIELD \<Rightarrow> Inr (start_field r c)
      | IN_FIELD \<Rightarrow>
          if line_end c then Inr ((parse_save_field r)\<lparr>state_of := after_line_end c\<rparr>)
          else if c = Some (CHR 0x2C) then Inr ((parse_save_field r)\<lparr>state_of := START_FIELD\<rparr>)
          else Inr (parse_add_char r (the c))
      | IN_QUOTED_FIELD \<Rightarrow>
          if c = None then Inr r
          else if c = Some (CHR 0x22) then Inr (r\<lparr>state_of := QUOTE_IN_QUOTED_FIELD\<rparr>)
          else Inr (parse_add_char r (the c))
      | QUOTE_IN_QUOTED_FIELD \<Rightarrow>
          if c = Some (CHR 0x22) then Inr ((parse_add_char r (CHR 0x22))\<lparr>state_of := IN_QUOTED_FIELD\<rparr>)
          else if c = Some (CHR 0x2C) then Inr ((parse_save_field r)\<lparr>state_of := START_FIELD\<rparr>)
          else if line_end c then Inr ((parse_save_field r)\<lparr>state_of := after_line_end c\<rparr>)
          else Inr ((parse_add_char r (the c))\<lparr>state_of := IN_FIELD\<rparr>)
      | EAT_CRNL \<Rightarrow>
          if c = None then Inr (r\<lparr>state_of := START_RECORD\<rparr>)
          else if line_end c then Inr r
          else Inl (CsvError ''new-line character seen in unquoted field - do you need to open the file in universal-newline mode?''))"

fun process_chars :: "reader \<Rightarrow> string \<Rightarrow> py_error + reader" where
  "process_chars r [] = Inr r"
| "process_chars r (c # s) =
     (case parse_process_char r (Some c) of Inl e \<Rightarrow> Inl e | Inr r' \<Rightarrow> process_chars r' s)"

definition process_line :: "reader \<Rightarrow> string \<Rightarrow> py_error + reader" where
  "process_line r l =
     (case process_chars r l of Inl e \<Rightarrow> Inl e | Inr r' \<Rightarrow> parse_process_char r' None)"

text \<open>
  The records the reader yields from the lines, in order, and the error that ends the
  iteration if one is raised. A record is complete when a line leaves the parser in
  \<open>START_RECORD\<close>; when the lines run out inside a record, what was collected is yielded.
\<close>

fun csv_rows :: "reader \<Rightarrow> string list \<Rightarrow> string list list \<times> py_error option" where
  "csv_rows r [] =
     (if field_of r \<noteq> [] \<or> state_of r = IN_QUOTED_FIELD
      then ([fields_of (parse_save_field r)], None) else ([], None))"
| "csv_rows r (l # ls) =
     (case process_line r l of
        Inl e \<Rightarrow> ([], Some e)
      | Inr r' \<Rightarrow>
          if state_of r' = START_RECORD
          then (case csv_rows parse_reset ls of (rows, e) \<Rightarrow> (fields_of r' # rows, e))
          else csv_rows r' ls)"

definition store_rows :: "string \<Rightarrow> string list list \<times> py_error option" where
  "store_rows text = csv_rows parse_reset (file_lines [] (universal_newlines text))"

text \<open>
  \<open>int(text)\<close> for a field of the file: white space around the number is dropped, a sign
  may come first, and the digits may be grouped by single underscores. Python also
  accepts digits and white space outside ASCII, and newer interpreters refuse a text of
  more than 4300 digits; a text with a character outside ASCII or with more than 4300
  digits is not given a value here but reported as \<open>OutsideModel\<close>. The white space
  dropped from an ASCII text is the tab, the line feed, the vertical tab, the form feed,
  the carriage return and the space.
\<close>

definition is_space :: "char \<Rightarrow> bool" where
  "is_space c = (c \<in> set [CHR 0x09, CHR 0x0A, CHR 0x0B, CHR 0x0C, CHR 0x0D, CHR 0x20])"

definition strip :: "string \<Rightarrow> string" where
  "strip s = rev (dropWhile is_space (rev (dropWhile is_space s)))"

definition is_digit :: "char \<Rightarrow> bool" where
  "is_digit c = (c \<in> set ''0123456789'')"

definition digit_value :: "char \<Rightarrow> nat" where
  "digit_value c = of_char c - 48"

fun digits_ok :: "string \<Rightarrow> bool" where
  "digits_ok [] = False"
| "digits_ok [c] = is_digit c"
| "digits_ok (c # d # s) =
     (is_digit c \<and> (if d = CHR ''_'' then digits_ok s else digits_ok (d # s)))"

definition digits_value :: "string \<Rightarrow> nat" where
  "digits_value s = foldl (\<lambda>n c. 10 * n + digit_value c) 0 (filter (\<lambda>c. c \<noteq> CHR ''_'') s)"

text \<open>
  \<open>repr(text)\<close> for an ASCII text: between double quotes when the text holds a single
  quote and no double quote, between single quotes otherwise; the backslash and the
  enclosing quote are escaped, so are tab, line feed and carriage return, and every other
  control character is written \<open>\xNN\<close>. The message of \<open>int()\<close> shows its first 200
  characters.
\<close>

definition hex_digit :: "nat \<Rightarrow> char" where
  "hex_digit d = ''0123456789abcdef'' ! d"

definition repr_quote :: "string \<Rightarrow> char" where
  "repr_quote s = (if CHR 0x27 \<in> set s \<and> CHR 0x22 \<notin> set s then CHR 0x22 else CHR 0x27)"

definition repr_char :: "char \<Rightarrow> char \<Rightarrow> string" where
  "repr_char q c =
     (if c = q \<or> c = CHR 0x5C then [CHR 0x5C, c]
      else if c = CHR 0x09 then [CHR 0x5C, CHR ''t'']
      else if c = CHR 0x0A then [CHR 0x5C, CHR ''n'']
      else if c = CHR 0x0D then [CHR 0x5C, CHR ''r'']
      else if c < CHR 0x20 \<or> c = CHR 0x7F then
        [CHR 0x5C, CHR ''x'', hex_digit (of_char c div 16), hex_digit (of_char c mod 16)]
      else [c])"

definition py_repr :: "string \<Rightarrow> string" where
  "py_repr s = [repr_quote s] @ concat (map (repr_char (repr_quote s)) s) @ [repr_quote s]"

definition invalid_literal :: "string \<Rightarrow> py_error" where
  "invalid_literal text =
     ValueError (''invalid literal for int() with base 10: '' @ take 200 (py_repr text))"

definition py_int :: "string \<Rightarrow> py_error + int" where
  "py_int text =
     (if list_ex (\<lambda>c. CHR 0x7F < c) text then Inl (OutsideModel ''a character outside ASCII in int()'')
      else if 4300 < length (filter is_digit text) then
        Inl (OutsideModel ''more than 4300 digits in int()'')
      else
        (case strip text of
           [] \<Rightarrow> Inl (invalid_literal text)
         | c # body \<Rightarrow>
             if c = CHR ''-'' then
               (if digits_ok body then Inr (- int (digits_value body)) else Inl (invalid_literal text))
             else if c = CHR ''+'' then
               (if digits_ok body then Inr (int (digits_value body)) else Inl (invalid_literal text))
             else
               (if digits_ok (c # body) then Inr (int (digits_value (c # body)))
                else Inl (invalid_literal text))))"

text \<open>
  \<open>csv.DictReader\<close>: the first record names the columns; a later record becomes a
  dictionary from the column names to its fields, the columns it has no field for being
  \<open>None\<close>. A key that appears twice keeps what was stored last.
\<close>

definition row_dict :: "string list \<Rightarrow> string list \<Rightarrow> (string \<times> string option) list" where
  "row_dict fieldnames row =
     map (\<lambda>(k, v). (k, Some v)) (zip fieldnames row)
     @ map (\<lambda>k. (k, None)) (drop (length row) fieldnames)"

definition row_get :: "(string \<times> string option) list \<Rightarrow> string \<Rightarrow> string option option" where
  "row_get d k = map_of (rev d) k"

text \<open>
  The loop of \<open>load_previous_annotations\<close> over the records after the first, empty
  records skipped. The right-hand side \<open>int(row['class_index'])\<close> is evaluated before
  \<open>row['filename']\<close>. What was stored before an exception stays stored. A record too
  short to have a field in the \<open>filename\<close> column would be stored under the key \<open>None\<close>;
  the dictionary of the model has string keys only, so that case is \<open>OutsideModel\<close>.
\<close>

fun load_rows ::
  "string list \<Rightarrow> (string \<times> int) list \<Rightarrow> string list list \<Rightarrow> py_error option \<times> (string \<times> int) list"
where
  "load_rows fieldnames ann [] = (None, ann)"
| "load_rows fieldnames ann (row # rows) =
     (if row = [] then load_rows fieldnames ann rows
      else
        (case row_get (row_dict fieldnames row) ''class_index'' of
           None \<Rightarrow> (Some (KeyError ''class_index''), ann)
         | Some None \<Rightarrow> (Some (TypeError (''int() argument must be a string, a bytes-like object or a real number, not ''
                                        @ [CHR 0x27] @ ''NoneType'' @ [CHR 0x27])), ann)
         | Some (Some text) \<Rightarrow>
             (case py_int text of
                Inl e \<Rightarrow> (Some e, ann)
              | Inr class_idx \<Rightarrow>
                  (case row_get (row_dict fieldnames row) ''filename'' of
                     None \<Rightarrow> (Some (KeyError ''filename''), ann)
                   | Some None \<Rightarrow> (Some (OutsideModel ''a row stored under the key None''), ann)
                   | Some (Some name) \<Rightarrow>
                       load_rows fieldnames (setitem name class_idx ann) rows))))"

definition load_previous_annotations :: "annotator \<Rightarrow> py_error option \<times> annotator" where
  "load_previous_annotations s =
     (case store s of
        None \<Rightarrow> (None, s)
      | Some text \<Rightarrow>
          (case store_rows text of
             ([], e) \<Rightarrow> (e, s)
           | (fieldnames # rows, e) \<Rightarrow>
               (case load_rows fieldnames (annotations s) rows of
                  (Some e', ann) \<Rightarrow> (Some e', s\<lparr>annotations := ann\<rparr>)
                | (None, ann) \<Rightarrow> (e, s\<lparr>annotations := ann\<rparr>))))"

text \<open>
  The filename and class index of every record after the first that has both, in the
  order of the file.
\<close>

definition row_entry :: "string list \<Rightarrow> string list \<Rightarrow> (string \<times> int) option" where
  "row_entry fieldnames row =
     (case (row_get (row_dict fieldnames row) ''filename'',
            row_get (row_dict fieldnames row) ''class_index'') of
        (Some (Some name), Some (Some text)) \<Rightarrow>
          (case py_int text of Inr class_idx \<Rightarrow> Some (name, class_idx) | Inl e \<Rightarrow> None)
      | other \<Rightarrow> None)"

definition store_entries :: "string \<Rightarrow> (string \<times> int) list" where
  "store_entries text =
     (case fst (store_rows text) of
        [] \<Rightarrow> []
      | fieldnames # rows \<Rightarrow> List.map_filter (row_entry fieldnames) (filter (\<lambda>row. row \<noteq> []) rows))"

text \<open>Storing a list of entries one after the other.\<close>

definition store_all :: "(string \<times> int) list \<Rightarrow> (string \<times> int) list \<Rightarrow> (string \<times> int) list" where
  "store_all entries d = fold (\<lambda>entry. setitem (fst entry) (snd entry)) entries d"

definition demo_store :: string where
  "demo_store =
     header_row
     @ ''a.jpg,0,column'' @ [CHR 0x0D, CHR 0x0A]
     @ ''b.PNG,1,plate'' @ [CHR 0x0D, CHR 0x0A]
     @ ''a.jpg,1,plate'' @ [CHR 0x0D, CHR 0x0A]"

definition demo_stored :: annotator where
  "demo_stored = demo_start\<lparr>store := Some demo_store\<rparr>"

text \<open>A file name with a carriage return in it, labelled with the first class.\<close>

definition demo_cr :: annotator where
  "demo_cr = demo_start\<lparr>annotations := [(''a'' @ [CHR 0x0D] @ ''b.png'', 0)]\<rparr>"

definition demo_cr_store :: string where
  "demo_cr_store =
     header_row
     @ [CHR 0x22] @ ''a'' @ [CHR 0x0D] @ ''b.png'' @ [CHR 0x22] @ '',0,column'' @ [CHR 0x0D, CHR 0x0A]"

definition demo_cr_restarted :: annotator where
  "demo_cr_restarted = demo_start\<lparr>store := Some demo_cr_store\<rparr>"

section \<open>What each callback leaves alone\<close>

lemma display_image_frame:
  "images (snd (display_image env s)) = images s \<and>
   current_index (snd (display_image env s)) = current_index s \<and>
   annotations (snd (display_image env s)) = annotations s \<and>
   store (snd (display_image env s)) = store s \<and>
   classes (snd (display_image env s)) = classes s \<and>
   image_folder (snd (display_image env s)) = image_folder s \<and>
   resized_image_size (snd (display_image env s)) = resized_image_size s"
  by (simp add: display_image_def cannot_load_def Let_def split: option.split sum.split)

lemma save_annotations_frame:
  "images (snd (save_annotations s)) = images s \<and>
   current_index (snd (save_annotations s)) = current_index s \<and>
   annotations (snd (save_annotations s)) = annotations s \<and>
   classes (snd (save_annotations s)) = classes s"
  by (simp add: save_annotations_def split: prod.split)

lemma on_class_selected_frame:
  "images (snd (on_class_selected s)) = images s \<and>
   current_index (snd (on_class_selected s)) = current_index s"
  using save_annotations_frame
    [of "s\<lparr>annotations := setitem (the (getitem (images s) (current_index s)))
                               (selected_class s) (annotations s)\<rparr>"]
  by (auto simp add: on_class_selected_def update_statistics_def split: option.split prod.split)

lemma select_class_by_key_frame:
  "images (snd (select_class_by_key k s)) = images s \<and>
   current_index (snd (select_class_by_key k s)) = current_index s"
  using on_class_selected_frame [of "s\<lparr>selected_class := k\<rparr>"]
  by (simp add: select_class_by_key_def)

section \<open>The cursor\<close>

lemma load_images_cursor:
  "cursor_valid s \<Longrightarrow> cursor_valid (snd (load_images env s))"
  using display_image_frame
  by (auto simp add: load_images_def cursor_valid_def Let_def split: option.split)

lemma load_images_reset:
  "listdir env (image_folder s) = Some names \<Longrightarrow> images (snd (load_images env s)) \<noteq> [] \<Longrightarrow>
   current_index (snd (load_images env s)) = 0"
  using display_image_frame
  by (auto simp add: load_images_def Let_def split: if_splits)

lemma select_folder_cursor:
  "cursor_valid s \<Longrightarrow> cursor_valid (snd (select_folder env folder s))"
  using load_images_cursor [of "s\<lparr>image_folder := folder\<rparr>" env]
  by (simp add: select_folder_def cursor_valid_def)

lemma previous_image_cursor:
  "cursor_valid s \<Longrightarrow> cursor_valid (snd (previous_image env s))"
  using display_image_frame [of env "s\<lparr>current_index := current_index s - 1\<rparr>"]
  by (auto simp add: previous_image_def cursor_valid_def)

lemma next_image_cursor:
  "cursor_valid s \<Longrightarrow> cursor_valid (snd (next_image env s))"
  using display_image_frame [of env "s\<lparr>current_index := current_index s + 1\<rparr>"]
  by (auto simp add: next_image_def cursor_valid_def)

lemma reachable_cursor_valid: "reachable s \<Longrightarrow> cursor_valid s"
proof (induction rule: reachable.induct)
  case (after_start s)
  then show ?case by (simp add: cursor_valid_def)
next
  case (after_folder s env folder)
  then show ?case by (simp add: select_folder_cursor)
next
  case (after_previous s env)
  then show ?case by (simp add: previous_image_cursor)
next
  case (after_next s env)
  then show ?case by (simp add: next_image_cursor)
next
  case (after_key s class_index)
  then show ?case
    using select_class_by_key_frame [of class_index s] by (simp add: cursor_valid_def)
next
  case (after_radio s)
  then show ?case using on_class_selected_frame [of s] by (simp add: cursor_valid_def)
next
  case (after_save s)
  then show ?case using save_annotations_frame [of s] by (simp add: cursor_valid_def)
qed

lemma demo_loaded_reachable: "reachable demo_loaded"
  unfolding demo_loaded_def
  by (rule reachable.after_folder, rule reachable.after_start) (simp_all add: demo_start_def)

lemma demo_loaded_images: "images demo_loaded = [''a.jpg'', ''b.PNG'', ''c.gif'', ''d.bmp'']"
  by code_simp

lemma demo_loaded_index: "current_index demo_loaded = 0"
  by code_simp

text \<open>
  C6. In every state the window can reach, a non-empty image list has the cursor inside
  it: \<open>0 \<le> current_index < len(images)\<close>. Folder selection, both navigation callbacks
  and class selection lead to such a state again; class selection and saving leave the
  cursor where it was; and a folder selection whose listing succeeds and yields images
  puts the cursor at 0.
\<close>

theorem cursor_invariant:
  assumes "reachable s"
  shows "(images s \<noteq> [] \<longrightarrow> 0 \<le> current_index s \<and> current_index s < int (length (images s)))
    \<and> cursor_valid (snd (select_folder env folder s))
    \<and> cursor_valid (snd (previous_image env s))
    \<and> cursor_valid (snd (next_image env s))
    \<and> cursor_valid (snd (select_class_by_key k s))
    \<and> current_index (snd (select_class_by_key k s)) = current_index s
    \<and> current_index (snd (on_class_selected s)) = current_index s
    \<and> current_index (snd (save_annotations s)) = current_index s
    \<and> (folder \<noteq> [] \<and> listdir env folder \<noteq> None
         \<and> images (snd (select_folder env folder s)) \<noteq> []
       \<longrightarrow> current_index (snd (select_folder env folder s)) = 0)"
proof -
  have valid: "cursor_valid s"
    using assms by (rule reachable_cursor_valid)
  have inside: "images s \<noteq> [] \<longrightarrow> 0 \<le> current_index s \<and> current_index s < int (length (images s))"
    using valid by (auto simp add: cursor_valid_def)
  have key: "cursor_valid (snd (select_class_by_key k s))"
    using assms reachable.after_key reachable_cursor_valid by blast
  have reset: "folder \<noteq> [] \<and> listdir env folder \<noteq> None
         \<and> images (snd (select_folder env folder s)) \<noteq> []
       \<longrightarrow> current_index (snd (select_folder env folder s)) = 0"
    using load_images_reset [of env "s\<lparr>image_folder := folder\<rparr>"]
    by (auto simp add: select_folder_def)
  show ?thesis
    using inside key reset valid select_folder_cursor previous_image_cursor next_image_cursor
      select_class_by_key_frame on_class_selected_frame save_annotations_frame
    by simp
qed

theorem cursor_invariant_witness:
  "reachable demo_loaded
   \<and> images demo_loaded \<noteq> []
   \<and> 0 \<le> current_index demo_loaded
   \<and> current_index demo_loaded < int (length (images demo_loaded))
   \<and> cursor_valid (snd (next_image demo_env demo_loaded))
   \<and> current_index (snd (select_class_by_key 1 demo_loaded)) = 0
   \<and> current_index (snd (select_folder demo_env ''shots'' demo_loaded)) = 0"
proof -
  have ne: "images demo_loaded \<noteq> []"
    by (simp add: demo_loaded_images)
  have lists: "listdir demo_env ''shots'' \<noteq> None"
    by (simp add: demo_env_def)
  have again: "images (snd (select_folder demo_env ''shots'' demo_loaded)) \<noteq> []"
    by code_simp
  show ?thesis
    using cursor_invariant [OF demo_loaded_reachable, of demo_env "''shots''" 1]
      demo_loaded_reachable ne lists again demo_loaded_index
    by simp
qed

section \<open>Navigation\<close>

lemma getitem_inside:
  "0 \<le> i \<Longrightarrow> i < int (length xs) \<Longrightarrow> getitem xs i = Some (xs ! nat i)"
  by (simp add: getitem_def Let_def)

lemma getitem_beyond: "int (length xs) \<le> i \<Longrightarrow> getitem xs i = None"
  by (simp add: getitem_def Let_def)

lemma display_image_inside:
  "0 \<le> current_index s \<Longrightarrow> current_index s < int (length (images s)) \<Longrightarrow>
   fst (display_image env s) = None"
  by (simp add: display_image_def getitem_inside Let_def split: option.split sum.split)

lemma display_image_selection:
  assumes "0 \<le> current_index s" "current_index s < int (length (images s))"
    and "image_open env (image_folder s) (images s ! nat (current_index s)) = Inr sz"
    and "resized_size env (resized_image_size s) sz = Inr rs"
  shows "selected_class (snd (display_image env s)) =
     (case map_of (annotations s) (images s ! nat (current_index s)) of Some c \<Rightarrow> c | None \<Rightarrow> - 1)
    \<and> dialogs (snd (display_image env s)) = dialogs s"
proof -
  have ne: "images s \<noteq> []" using assms(1,2) by auto
  show ?thesis
    using ne assms by (simp add: display_image_def getitem_inside Let_def)
qed

lemma display_image_unopened:
  assumes "0 \<le> current_index s" "current_index s < int (length (images s))"
    and "image_open env (image_folder s) (images s ! nat (current_index s)) = Inl msg"
  shows "display_image env s = (None, cannot_load msg s)"
proof -
  have ne: "images s \<noteq> []" using assms(1,2) by auto
  show ?thesis
    using ne assms by (simp add: display_image_def getitem_inside)
qed

lemma display_image_unresized:
  assumes "0 \<le> current_index s" "current_index s < int (length (images s))"
    and "image_open env (image_folder s) (images s ! nat (current_index s)) = Inr sz"
    and "resized_size env (resized_image_size s) sz = Inl msg"
  shows "selected_class (snd (display_image env s)) = selected_class s
    \<and> dialogs (snd (display_image env s))
        = dialogs s @ [ShowError ''Error'' (''Cannot load image: '' @ msg)]"
proof -
  have ne: "images s \<noteq> []" using assms(1,2) by auto
  show ?thesis
    using ne assms by (simp add: display_image_def getitem_inside cannot_load_def Let_def)
qed

text \<open>
  C7 (as amended). On a non-empty image list with the cursor inside it, \<open>next_image\<close> and
  \<open>previous_image\<close> raise nothing and move the cursor by one, clamped to
  \<open>[0, len(images) - 1]\<close>; neither changes the annotations nor the file on disk, and a
  call that leaves the cursor where it was changes nothing at all. When the cursor moved
  and the new image is opened and resized, the selection shown is the class recorded for
  that image, or \<open>-1\<close> when none is recorded, and no box is shown. When the new image
  cannot be opened, or its resizing raises, the error box with the text of the exception
  is shown and the selection keeps the value it had.
\<close>

theorem navigation_clamped:
  assumes "images s \<noteq> []" "0 \<le> current_index s" "current_index s < int (length (images s))"
  shows "fst (next_image env s) = None \<and> fst (previous_image env s) = None
    \<and> current_index (snd (next_image env s)) = min (current_index s + 1) (int (length (images s)) - 1)
    \<and> current_index (snd (previous_image env s)) = max (current_index s - 1) 0
    \<and> annotations (snd (next_image env s)) = annotations s
    \<and> annotations (snd (previous_image env s)) = annotations s
    \<and> store (snd (next_image env s)) = store s
    \<and> store (snd (previous_image env s)) = store s
    \<and> (\<forall>s'. (s' = snd (next_image env s) \<or> s' = snd (previous_image env s))
          \<and> current_index s' = current_index s
        \<longrightarrow> s' = s)
    \<and> (\<forall>s' sz rs. (s' = snd (next_image env s) \<or> s' = snd (previous_image env s))
          \<and> current_index s' \<noteq> current_index s
          \<and> image_open env (image_folder s) (images s ! nat (current_index s')) = Inr sz
          \<and> resized_size env (resized_image_size s) sz = Inr rs
        \<longrightarrow> selected_class s' =
              (case map_of (annotations s) (images s ! nat (current_index s')) of
                 Some c \<Rightarrow> c | None \<Rightarrow> - 1)
            \<and> dialogs s' = dialogs s)
    \<and> (\<forall>s' msg. (s' = snd (next_image env s) \<or> s' = snd (previous_image env s))
          \<and> current_index s' \<noteq> current_index s
          \<and> image_open env (image_folder s) (images s ! nat (current_index s')) = Inl msg
        \<longrightarrow> selected_class s' = selected_class s
            \<and> dialogs s' = dialogs s @ [ShowError ''Error'' (''Cannot load image: '' @ msg)])
    \<and> (\<forall>s' sz msg. (s' = snd (next_image env s) \<or> s' = snd (previous_image env s))
          \<and> current_index s' \<noteq> current_index s
          \<and> image_open env (image_folder s) (images s ! nat (current_index s')) = Inr sz
          \<and> resized_size env (resized_image_size s) sz = Inl msg
        \<longrightarrow> selected_class s' = selected_class s
            \<and> dialogs s' = dialogs s @ [ShowError ''Error'' (''Cannot load image: '' @ msg)])"
proof -
  let ?up = "s\<lparr>current_index := current_index s + 1\<rparr>"
  let ?down = "s\<lparr>current_index := current_index s - 1\<rparr>"
  have n: "next_image env s =
      (if current_index s < int (length (images s)) - 1 then display_image env ?up else (None, s))"
    using assms(1) by (simp add: next_image_def)
  have p: "previous_image env s =
      (if current_index s > 0 then display_image env ?down else (None, s))"
    using assms(1) by (simp add: previous_image_def)
  have e1: "fst (next_image env s) = None"
    using assms display_image_inside [of ?up env] by (simp add: n)
  have e2: "fst (previous_image env s) = None"
    using assms display_image_inside [of ?down env] by (simp add: p)
  have c1: "current_index (snd (next_image env s)) = min (current_index s + 1) (int (length (images s)) - 1)"
    using assms display_image_frame [of env ?up] by (simp add: n)
  have c2: "current_index (snd (previous_image env s)) = max (current_index s - 1) 0"
    using assms display_image_frame [of env ?down] by (simp add: p)
  have a1: "annotations (snd (next_image env s)) = annotations s \<and> store (snd (next_image env s)) = store s"
    using display_image_frame [of env ?up] by (simp add: n)
  have a2: "annotations (snd (previous_image env s)) = annotations s \<and> store (snd (previous_image env s)) = store s"
    using display_image_frame [of env ?down] by (simp add: p)
  have stay: "s' = s"
    if "s' = snd (next_image env s) \<or> s' = snd (previous_image env s)"
      and "current_index s' = current_index s" for s'
    using that(1)
  proof
    assume "s' = snd (next_image env s)"
    then show ?thesis
      using that(2) display_image_frame [of env ?up] by (simp add: n split: if_splits)
  next
    assume "s' = snd (previous_image env s)"
    then show ?thesis
      using that(2) display_image_frame [of env ?down] by (simp add: p split: if_splits)
  qed
  have moved: "\<exists>t. s' = snd (display_image env t)
      \<and> 0 \<le> current_index t \<and> current_index t < int (length (images t))
      \<and> current_index t = current_index s'
      \<and> images t = images s \<and> image_folder t = image_folder s
      \<and> annotations t = annotations s \<and> resized_image_size t = resized_image_size s
      \<and> selected_class t = selected_class s \<and> dialogs t = dialogs s"
    if "s' = snd (next_image env s) \<or> s' = snd (previous_image env s)"
      and "current_index s' \<noteq> current_index s" for s'
    using that(1)
  proof
    assume is_next: "s' = snd (next_image env s)"
    have less: "current_index s < int (length (images s)) - 1"
      using that(2) is_next by (auto simp add: n split: if_splits)
    have "s' = snd (display_image env ?up)"
      using is_next less by (simp add: n)
    moreover have "current_index ?up = current_index s'"
      using is_next less display_image_frame [of env ?up] by (simp add: n)
    ultimately show ?thesis
      using less assms(2) by (intro exI [of _ ?up]) simp
  next
    assume is_previous: "s' = snd (previous_image env s)"
    have more: "current_index s > 0"
      using that(2) is_previous by (auto simp add: p split: if_splits)
    have "s' = snd (display_image env ?down)"
      using is_previous more by (simp add: p)
    moreover have "current_index ?down = current_index s'"
      using is_previous more display_image_frame [of env ?down] by (simp add: p)
    ultimately show ?thesis
      using more assms(3) by (intro exI [of _ ?down]) simp
  qed
  have shown: "selected_class s' =
              (case map_of (annotations s) (images s ! nat (current_index s')) of
                 Some c \<Rightarrow> c | None \<Rightarrow> - 1)
            \<and> dialogs s' = dialogs s"
    if either: "s' = snd (next_image env s) \<or> s' = snd (previous_image env s)"
      and changed: "current_index s' \<noteq> current_index s"
      and outcome: "image_open env (image_folder s) (images s ! nat (current_index s')) = Inr sz"
      and resized: "resized_size env (resized_image_size s) sz = Inr rs" for s' sz rs
  proof -
    obtain t where t: "s' = snd (display_image env t)"
      "0 \<le> current_index t" "current_index t < int (length (images t))"
      "current_index t = current_index s'"
      "images t = images s" "image_folder t = image_folder s"
      "annotations t = annotations s" "resized_image_size t = resized_image_size s"
      "selected_class t = selected_class s" "dialogs t = dialogs s"
      using moved [OF either changed] by blast
    have opened: "image_open env (image_folder t) (images t ! nat (current_index t)) = Inr sz"
      using outcome t(4,5,6) by simp
    have sized: "resized_size env (resized_image_size t) sz = Inr rs"
      using resized t(8) by simp
    show ?thesis
      using display_image_selection [OF t(2) t(3) opened sized] t(1,4,5,7,10) by simp
  qed
  have unopened: "selected_class s' = selected_class s
            \<and> dialogs s' = dialogs s @ [ShowError ''Error'' (''Cannot load image: '' @ msg)]"
    if either: "s' = snd (next_image env s) \<or> s' = snd (previous_image env s)"
      and changed: "current_index s' \<noteq> current_index s"
      and outcome: "image_open env (image_folder s) (images s ! nat (current_index s')) = Inl msg" for s' msg
  proof -
    obtain t where t: "s' = snd (display_image env t)"
      "0 \<le> current_index t" "current_index t < int (length (images t))"
      "current_index t = current_index s'"
      "images t = images s" "image_folder t = image_folder s"
      "annotations t = annotations s" "resized_image_size t = resized_image_size s"
      "selected_class t = selected_class s" "dialogs t = dialogs s"
      using moved [OF either changed] by blast
    have failed: "image_open env (image_folder t) (images t ! nat (current_index t)) = Inl msg"
      using outcome t(4,5,6) by simp
    have "display_image env t = (None, cannot_load msg t)"
      using t(2) t(3) failed by (rule display_image_unopened)
    then show ?thesis
      using t(1,9,10) by (simp add: cannot_load_def)
  qed
  have unresized: "selected_class s' = selected_class s
            \<and> dialogs s' = dialogs s @ [ShowError ''Error'' (''Cannot load image: '' @ msg)]"
    if either: "s' = snd (next_image env s) \<or> s' = snd (previous_image env s)"
      and changed: "current_index s' \<noteq> current_index s"
      and outcome: "image_open env (image_folder s) (images s ! nat (current_index s')) = Inr sz"
      and resized: "resized_size env (resized_image_size s) sz = Inl msg" for s' sz msg
  proof -
    obtain t where t: "s' = snd (display_image env t)"
      "0 \<le> current_index t" "current_index t < int (length (images t))"
      "current_index t = current_index s'"
      "images t = images s" "image_folder t = image_folder s"
      "annotations t = annotations s" "resized_image_size t = resized_image_size s"
      "selected_class t = selected_class s" "dialogs t = dialogs s"
      using moved [OF either changed] by blast
    have opened: "image_open env (image_folder t) (images t ! nat (current_index t)) = Inr sz"
      using outcome t(4,5,6) by simp
    have failed: "resized_size env (resized_image_size t) sz = Inl msg"
      using resized t(8) by simp
    show ?thesis
      using display_image_unresized [OF t(2) t(3) opened failed] t(1,9,10) by simp
  qed
  have all_stay: "\<forall>s'. (s' = snd (next_image env s) \<or> s' = snd (previous_image env s))
          \<and> current_index s' = current_index s
        \<longrightarrow> s' = s"
    using stay by blast
  have all_shown: "\<forall>s' sz rs. (s' = snd (next_image env s) \<or> s' = snd (previous_image env s))
          \<and> current_index s' \<noteq> current_index s
          \<and> image_open env (image_folder s) (images s ! nat (current_index s')) = Inr sz
          \<and> resized_size env (resized_image_size s) sz = Inr rs
        \<longrightarrow> selected_class s' =
              (case map_of (annotations s) (images s ! nat (current_index s')) of
                 Some c \<Rightarrow> c | None \<Rightarrow> - 1)
            \<and> dialogs s' = dialogs s"
    using shown by blast
  have all_unopened: "\<forall>s' msg. (s' = snd (next_image env s) \<or> s' = snd (previous_image env s))
          \<and> current_index s' \<noteq> current_index s
          \<and> image_open env (image_folder s) (images s ! nat (current_index s')) = Inl msg
        \<longrightarrow> selected_class s' = selected_class s
            \<and> dialogs s' = dialogs s @ [ShowError ''Error'' (''Cannot load image: '' @ msg)]"
    using unopened by blast
  have all_unresized: "\<forall>s' sz msg. (s' = snd (next_image env s) \<or> s' = snd (previous_image env s))
          \<and> current_index s' \<noteq> current_index s
          \<and> image_open env (image_folder s) (images s ! nat (current_index s')) = Inr sz
          \<and> resized_size env (resized_image_size s) sz = Inl msg
        \<longrightarrow> selected_class s' = selected_class s
            \<and> dialogs s' = dialogs s @ [ShowError ''Error'' (''Cannot load image: '' @ msg)]"
    using unresized by blast
  show ?thesis
    using e1 e2 c1 c2 a1 a2 all_stay all_shown all_unopened all_unresized
    by (intro conjI) (simp_all only: simp_thms)
qed

section \<open>What showing an image and opening a folder do\<close>

lemma display_image_opened:
  assumes "0 \<le> current_index s" "current_index s < int (length (images s))"
    and "image_open env (image_folder s) (images s ! nat (current_index s)) = Inr sz"
  shows "fst (display_image env s) = None
    \<and> original_display (snd (display_image env s)) =
        (if max_original_side sz \<le> resized_image_size s then PaneImage sz
         else PaneText (too_large_message sz))"
proof -
  have ne: "images s \<noteq> []" using assms(1,2) by auto
  show ?thesis
    using ne assms
    by (simp add: display_image_def getitem_inside cannot_load_def Let_def split: sum.split)
qed

lemma load_images_listed:
  assumes "listdir env (image_folder s) = Some names"
  shows "images (snd (load_images env s)) = sort (filter (\<lambda>f. endswith (lower f) extensions) names)"
  using assms display_image_frame
  by (simp add: load_images_def Let_def)

lemma load_images_keeps:
  "annotations (snd (load_images env s)) = annotations s
   \<and> store (snd (load_images env s)) = store s
   \<and> classes (snd (load_images env s)) = classes s
   \<and> image_folder (snd (load_images env s)) = image_folder s
   \<and> resized_image_size (snd (load_images env s)) = resized_image_size s"
  by (simp add: load_images_def display_image_def cannot_load_def Let_def
      split: option.split sum.split)

lemma select_folder_keeps:
  "annotations (snd (select_folder env folder s)) = annotations s
   \<and> store (snd (select_folder env folder s)) = store s
   \<and> classes (snd (select_folder env folder s)) = classes s
   \<and> resized_image_size (snd (select_folder env folder s)) = resized_image_size s"
  using load_images_keeps [of env "s\<lparr>image_folder := folder\<rparr>"]
  by (simp add: select_folder_def)

lemma demo_listing:
  "sort (filter (\<lambda>f. endswith (lower f) extensions)
      [''d.bmp'', ''b.PNG'', ''notes.txt'', ''a.jpg'', ''c.gif''])
   = [''a.jpg'', ''b.PNG'', ''c.gif'', ''d.bmp'']"
  by code_simp

lemma demo_none_listed:
  "filter (\<lambda>f. endswith (lower f) extensions) [''notes.txt''] = []"
  by code_simp

section \<open>The sample session, step by step\<close>

lemma load_images_found:
  assumes "listdir env (image_folder s) = Some names"
    and "sort (filter (\<lambda>f. endswith (lower f) extensions) names) = found"
    and "found \<noteq> []"
  shows "load_images env s = display_image env (s\<lparr>images := found, current_index := 0\<rparr>)"
  using assms by (simp add: load_images_def Let_def)

lemma load_images_nothing:
  assumes "listdir env (image_folder s) = Some names"
    and "filter (\<lambda>f. endswith (lower f) extensions) names = []"
  shows "load_images env s =
    (None, s\<lparr>images := [],
             dialogs := dialogs s @ [ShowWarning ''Warning'' ''No images found in this folder'']\<rparr>)"
  using assms by (simp add: load_images_def Let_def)

lemma demo_loaded_fields:
  "image_folder demo_loaded = ''shots'' \<and> annotations demo_loaded = []
   \<and> classes demo_loaded = [''column'', ''plate'']
   \<and> resized_image_size demo_loaded = 100"
  using load_images_keeps [of demo_env "demo_start\<lparr>image_folder := ''shots''\<rparr>"]
  by (simp add: demo_loaded_def select_folder_def demo_start_def)

lemma demo_second_fields:
  "images demo_second = [''a.jpg'', ''b.PNG'', ''c.gif'', ''d.bmp'']
   \<and> current_index demo_second = 1
   \<and> image_folder demo_second = ''shots''
   \<and> annotations demo_second = []
   \<and> resized_image_size demo_second = 100"
proof -
  have step: "demo_second = snd (display_image demo_env (demo_loaded\<lparr>current_index := 1\<rparr>))"
    by (simp add: demo_second_def next_image_def demo_loaded_images demo_loaded_index)
  have "image_open demo_env ''shots'' ''b.PNG'' = Inl ''cannot identify image file''"
    by (simp add: demo_env_def)
  then have "display_image demo_env (demo_loaded\<lparr>current_index := 1\<rparr>)
      = (None, cannot_load ''cannot identify image file'' (demo_loaded\<lparr>current_index := 1\<rparr>))"
    using display_image_unopened [of "demo_loaded\<lparr>current_index := 1\<rparr>" demo_env]
    by (simp add: demo_loaded_images demo_loaded_fields)
  then show ?thesis
    by (simp add: step cannot_load_def demo_loaded_images demo_loaded_fields)
qed

theorem navigation_clamped_witness:
  "images demo_second \<noteq> [] \<and> 0 \<le> current_index demo_second
   \<and> current_index demo_second < int (length (images demo_second))
   \<and> fst (next_image demo_env demo_second) = None
   \<and> fst (previous_image demo_env demo_second) = None
   \<and> current_index (snd (next_image demo_env demo_second)) = 2
   \<and> current_index (snd (previous_image demo_env demo_second)) = 0
   \<and> annotations (snd (next_image demo_env demo_second)) = annotations demo_second
   \<and> snd (previous_image demo_env demo_loaded) = demo_loaded
   \<and> image_open demo_env ''shots'' ''c.gif'' = Inr (4000, 2000)
   \<and> resized_size demo_env (resized_image_size demo_second) (4000, 2000) = Inr (100, 50)
   \<and> selected_class (snd (next_image demo_env demo_second)) = - 1
   \<and> dialogs (snd (next_image demo_env demo_second)) = dialogs demo_second
   \<and> image_open demo_env ''shots'' ''b.PNG'' = Inl ''cannot identify image file''
   \<and> selected_class (snd (next_image demo_env demo_loaded)) = selected_class demo_loaded
   \<and> dialogs (snd (next_image demo_env demo_loaded))
       = dialogs demo_loaded @ [ShowError ''Error'' ''Cannot load image: cannot identify image file'']
   \<and> resized_size demo_env 0 (4000, 2000) = Inl ''division by zero''
   \<and> selected_class (snd (next_image demo_env (demo_second\<lparr>resized_image_size := 0\<rparr>)))
       = selected_class demo_second
   \<and> dialogs (snd (next_image demo_env (demo_second\<lparr>resized_image_size := 0\<rparr>)))
       = dialogs demo_second @ [ShowError ''Error'' ''Cannot load image: division by zero'']"
proof -
  let ?z = "demo_second\<lparr>resized_image_size := 0\<rparr>"
  have ne: "images demo_second \<noteq> []" by (simp add: demo_second_fields)
  have lo: "0 \<le> current_index demo_second" by (simp add: demo_second_fields)
  have hi: "current_index demo_second < int (length (images demo_second))"
    by (simp add: demo_second_fields)
  have ne1: "images demo_loaded \<noteq> []" by (simp add: demo_loaded_images)
  have lo1: "0 \<le> current_index demo_loaded" by (simp add: demo_loaded_index)
  have hi1: "current_index demo_loaded < int (length (images demo_loaded))"
    by (simp add: demo_loaded_images demo_loaded_index)
  have ne0: "images ?z \<noteq> []" by (simp add: demo_second_fields)
  have lo0: "0 \<le> current_index ?z" by (simp add: demo_second_fields)
  have hi0: "current_index ?z < int (length (images ?z))"
    by (simp add: demo_second_fields)
  have opens: "image_open demo_env ''shots'' ''c.gif'' = Inr (4000, 2000)"
    by (simp add: demo_env_def)
  have fails: "image_open demo_env ''shots'' ''b.PNG'' = Inl ''cannot identify image file''"
    by (simp add: demo_env_def)
  have reduced: "resized_size demo_env 100 (4000, 2000) = Inr (100, 50)"
    by (simp add: resized_size_def max_original_side_def demo_env_def thumbnail_spec_def)
  have raised: "resized_size demo_env 0 (4000, 2000) = Inl ''division by zero''"
    by (simp add: resized_size_def max_original_side_def demo_env_def)
  note second = navigation_clamped [OF ne lo hi, of demo_env]
  note loaded = navigation_clamped [OF ne1 lo1 hi1, of demo_env]
  note unsized = navigation_clamped [OF ne0 lo0 hi0, of demo_env]
  have moves: "fst (next_image demo_env demo_second) = None
      \<and> fst (previous_image demo_env demo_second) = None
      \<and> current_index (snd (next_image demo_env demo_second)) = 2
      \<and> current_index (snd (previous_image demo_env demo_second)) = 0
      \<and> annotations (snd (next_image demo_env demo_second)) = annotations demo_second"
    using second by (simp add: demo_second_fields)
  have stays: "snd (previous_image demo_env demo_loaded) = demo_loaded"
    using loaded by (simp add: demo_loaded_images demo_loaded_index)
  have selected: "selected_class (snd (next_image demo_env demo_second)) = - 1
      \<and> dialogs (snd (next_image demo_env demo_second)) = dialogs demo_second"
    using second moves opens reduced by (simp add: demo_second_fields)
  have kept: "selected_class (snd (next_image demo_env demo_loaded)) = selected_class demo_loaded
      \<and> dialogs (snd (next_image demo_env demo_loaded))
          = dialogs demo_loaded @ [ShowError ''Error'' ''Cannot load image: cannot identify image file'']"
    using loaded fails by (simp add: demo_loaded_images demo_loaded_index demo_loaded_fields)
  have kept0: "selected_class (snd (next_image demo_env ?z)) = selected_class demo_second
      \<and> dialogs (snd (next_image demo_env ?z))
          = dialogs demo_second @ [ShowError ''Error'' ''Cannot load image: division by zero'']"
    using unsized opens raised by (simp add: demo_second_fields)
  show ?thesis
    using ne lo hi moves stays opens reduced selected fails kept raised kept0
    by (simp add: demo_second_fields)
qed

lemma demo_resumed_fields:
  "images demo_resumed = [''a.jpg'', ''b.PNG'', ''c.gif'', ''d.bmp'']
   \<and> current_index demo_resumed = 0
   \<and> image_folder demo_resumed = ''shots''
   \<and> annotations demo_resumed = [(''b.PNG'', 0)]
   \<and> selected_class demo_resumed = - 1"
proof -
  let ?s = "demo_start\<lparr>annotations := [(''b.PNG'', 0)], image_folder := ''shots''\<rparr>"
  let ?t = "?s\<lparr>images := [''a.jpg'', ''b.PNG'', ''c.gif'', ''d.bmp''], current_index := 0\<rparr>"
  have l: "listdir demo_env ''shots'' = Some [''d.bmp'', ''b.PNG'', ''notes.txt'', ''a.jpg'', ''c.gif'']"
    by (simp add: demo_env_def)
  have step: "demo_resumed = snd (display_image demo_env ?t)"
    using load_images_found [of demo_env ?s, OF _ demo_listing] l
    by (simp add: demo_resumed_def select_folder_def)
  have opens: "image_open demo_env ''shots'' ''a.jpg'' = Inr (50, 100)"
    by (simp add: demo_env_def)
  have kept: "resized_size demo_env 100 (50, 100) = Inr (50, 100)"
    by (simp add: resized_size_def max_original_side_def)
  have sel: "selected_class (snd (display_image demo_env ?t)) = - 1"
    using display_image_selection [of ?t demo_env "(50, 100)" "(50, 100)"] opens kept
    by (simp add: demo_start_def)
  show ?thesis
    using sel display_image_frame [of demo_env ?t]
    by (simp add: step)
qed

theorem stale_selection_counterexample:
  "images demo_resumed \<noteq> [] \<and> current_index demo_resumed = 0
   \<and> current_index (snd (next_image demo_env demo_resumed)) = 1
   \<and> getitem (images (snd (next_image demo_env demo_resumed))) 1 = Some ''b.PNG''
   \<and> map_of (annotations (snd (next_image demo_env demo_resumed))) ''b.PNG'' = Some 0
   \<and> selected_class (snd (next_image demo_env demo_resumed)) = - 1"
proof -
  have step: "next_image demo_env demo_resumed
      = display_image demo_env (demo_resumed\<lparr>current_index := 1\<rparr>)"
    by (simp add: next_image_def demo_resumed_fields)
  have "image_open demo_env ''shots'' ''b.PNG'' = Inl ''cannot identify image file''"
    by (simp add: demo_env_def)
  then have "display_image demo_env (demo_resumed\<lparr>current_index := 1\<rparr>)
      = (None, cannot_load ''cannot identify image file'' (demo_resumed\<lparr>current_index := 1\<rparr>))"
    using display_image_unopened [of "demo_resumed\<lparr>current_index := 1\<rparr>" demo_env]
    by (simp add: demo_resumed_fields)
  then show ?thesis
    by (simp add: step cannot_load_def demo_resumed_fields getitem_def)
qed

section \<open>A folder without images\<close>

text \<open>
  C9. When the folder lists no name with a recognised image extension, \<open>load_images\<close>
  raises nothing, leaves the image list empty, shows the warning box and changes neither
  the annotations nor the file on disk. Whatever the folder holds, \<open>load_images\<close> and
  \<open>select_folder\<close> leave the annotations as they were.
\<close>

theorem open_folder_without_images:
  assumes "listdir env (image_folder s) = Some names"
    and "\<not> list_ex (\<lambda>f. endswith (lower f) extensions) names"
  shows "fst (load_images env s) = None
    \<and> images (snd (load_images env s)) = []
    \<and> annotations (snd (load_images env s)) = annotations s
    \<and> store (snd (load_images env s)) = store s
    \<and> dialogs (snd (load_images env s))
        = dialogs s @ [ShowWarning ''Warning'' ''No images found in this folder'']
    \<and> annotations (snd (load_images env2 s2)) = annotations s2
    \<and> annotations (snd (select_folder env2 folder s2)) = annotations s2"
proof -
  have none: "filter (\<lambda>f. endswith (lower f) extensions) names = []"
    using assms(2) by (simp add: list_ex_iff filter_empty_conv)
  show ?thesis
    using load_images_nothing [OF assms(1) none] load_images_keeps [of env2 s2]
      select_folder_keeps [of env2 folder s2]
    by simp
qed

theorem open_folder_without_images_witness:
  "listdir demo_env (image_folder (demo_resumed\<lparr>image_folder := ''docs''\<rparr>)) = Some [''notes.txt'']
   \<and> \<not> list_ex (\<lambda>f. endswith (lower f) extensions) [''notes.txt'']
   \<and> fst (load_images demo_env (demo_resumed\<lparr>image_folder := ''docs''\<rparr>)) = None
   \<and> images (snd (load_images demo_env (demo_resumed\<lparr>image_folder := ''docs''\<rparr>))) = []
   \<and> annotations (snd (load_images demo_env (demo_resumed\<lparr>image_folder := ''docs''\<rparr>)))
       = [(''b.PNG'', 0)]
   \<and> dialogs (snd (load_images demo_env (demo_resumed\<lparr>image_folder := ''docs''\<rparr>)))
       = dialogs demo_resumed @ [ShowWarning ''Warning'' ''No images found in this folder'']"
proof -
  have l: "listdir demo_env (image_folder (demo_resumed\<lparr>image_folder := ''docs''\<rparr>)) = Some [''notes.txt'']"
    by (simp add: demo_env_def)
  have n: "\<not> list_ex (\<lambda>f. endswith (lower f) extensions) [''notes.txt'']"
    by code_simp
  show ?thesis
    using open_folder_without_images [OF l n] l n
    by (simp add: demo_resumed_fields)
qed

section \<open>Calls the window should not make\<close>

lemma write_rows_raises:
  "(k, v) \<in> set items \<Longrightarrow> getitem cls v = None \<Longrightarrow>
   fst (write_rows cls items out) = Some IndexError"
proof (induction items arbitrary: out)
  case Nil
  then show ?case by simp
next
  case (Cons item items)
  then show ?case by (cases item) (auto split: option.split)
qed

lemma map_of_setitem: "map_of (setitem k v d) k = Some v"
  by (induction d) auto

lemma setitem_member: "(k, v) \<in> set (setitem k v d)"
  by (induction d) auto

lemma save_annotations_raises:
  assumes "(k, v) \<in> set (annotations s)" "getitem (classes s) v = None"
  shows "fst (save_annotations s) = Some IndexError"
proof -
  have "(k, v) \<in> set (sort (annotations s))" using assms(1) by simp
  then have "fst (write_rows (classes s) (sort (annotations s)) header_row) = Some IndexError"
    using assms(2) by (rule write_rows_raises)
  then show ?thesis by (auto simp add: save_annotations_def split: prod.split)
qed

lemma on_class_selected_recorded:
  assumes "images s \<noteq> []" "0 \<le> selected_class s"
    and "0 \<le> current_index s" "current_index s < int (length (images s))"
  shows "annotations (snd (on_class_selected s))
       = setitem (images s ! nat (current_index s)) (selected_class s) (annotations s)"
proof -
  let ?s1 = "s\<lparr>annotations := setitem (images s ! nat (current_index s)) (selected_class s) (annotations s)\<rparr>"
  show ?thesis
    using assms save_annotations_frame [of ?s1]
    by (auto simp add: on_class_selected_def getitem_inside update_statistics_def
        split: prod.split option.split)
qed

lemma on_class_selected_raises:
  assumes "images s \<noteq> []" "0 \<le> selected_class s"
    and "0 \<le> current_index s" "current_index s < int (length (images s))"
    and "getitem (classes s) (selected_class s) = None"
  shows "fst (on_class_selected s) = Some IndexError"
proof -
  let ?s1 = "s\<lparr>annotations := setitem (images s ! nat (current_index s)) (selected_class s) (annotations s)\<rparr>"
  have "fst (save_annotations ?s1) = Some IndexError"
    using save_annotations_raises [of "images s ! nat (current_index s)" "selected_class s" ?s1]
      setitem_member assms(5) by simp
  then show ?thesis
    using assms(1-4)
    by (auto simp add: on_class_selected_def getitem_inside split: prod.split option.split)
qed

text \<open>
  C4 (as amended). With no images, \<open>next_image\<close>, \<open>previous_image\<close> and a class selection
  return without an error and without changing anything but the selection variable; a
  negative class index is absorbed the same way. A class index at or beyond the number of
  classes, selected while an image is shown, is first recorded for that image and then
  raises \<open>IndexError\<close> from the save that follows.
\<close>

theorem guards_absorb_silently:
  "(images s = [] \<longrightarrow>
      next_image env s = (None, s) \<and> previous_image env s = (None, s)
      \<and> select_class_by_key k s = (None, s\<lparr>selected_class := k\<rparr>))
   \<and> (k < 0 \<longrightarrow> select_class_by_key k s = (None, s\<lparr>selected_class := k\<rparr>))
   \<and> (images s \<noteq> [] \<and> 0 \<le> current_index s \<and> current_index s < int (length (images s))
        \<and> int (length (classes s)) \<le> k \<longrightarrow>
      fst (select_class_by_key k s) = Some IndexError
      \<and> map_of (annotations (snd (select_class_by_key k s))) (images s ! nat (current_index s))
          = Some k)"
proof -
  let ?s = "s\<lparr>selected_class := k\<rparr>"
  have empty: "images s = [] \<longrightarrow>
      next_image env s = (None, s) \<and> previous_image env s = (None, s)
      \<and> select_class_by_key k s = (None, ?s)"
    by (simp add: next_image_def previous_image_def select_class_by_key_def on_class_selected_def)
  have negative: "k < 0 \<longrightarrow> select_class_by_key k s = (None, ?s)"
    by (simp add: select_class_by_key_def on_class_selected_def)
  have beyond: "fst (select_class_by_key k s) = Some IndexError
      \<and> map_of (annotations (snd (select_class_by_key k s))) (images s ! nat (current_index s))
          = Some k"
    if "images s \<noteq> []" "0 \<le> current_index s" "current_index s < int (length (images s))"
      "int (length (classes s)) \<le> k"
  proof -
    have k0: "0 \<le> k" using that(4) by (smt (verit) of_nat_0_le_iff)
    have out: "getitem (classes ?s) (selected_class ?s) = None"
      using that(4) by (simp add: getitem_beyond)
    have r: "fst (on_class_selected ?s) = Some IndexError"
      using on_class_selected_raises [of ?s] that k0 out by simp
    have a: "annotations (snd (on_class_selected ?s))
        = setitem (images s ! nat (current_index s)) k (annotations s)"
      using on_class_selected_recorded [of ?s] that k0 by simp
    show ?thesis
      using r a by (simp add: select_class_by_key_def map_of_setitem)
  qed
  show ?thesis
    using empty negative beyond by blast
qed

theorem guards_absorb_silently_witness:
  "images demo_start = []
   \<and> next_image demo_env demo_start = (None, demo_start)
   \<and> previous_image demo_env demo_start = (None, demo_start)
   \<and> select_class_by_key (- 1) demo_start = (None, demo_start\<lparr>selected_class := - 1\<rparr>)
   \<and> images demo_resumed \<noteq> [] \<and> int (length (classes demo_resumed)) \<le> 2
   \<and> fst (select_class_by_key 2 demo_resumed) = Some IndexError
   \<and> map_of (annotations (snd (select_class_by_key 2 demo_resumed))) ''a.jpg'' = Some 2"
proof -
  have e: "images demo_start = []" by (simp add: demo_start_def)
  have c: "classes demo_resumed = [''column'', ''plate'']"
    using select_folder_keeps [of demo_env "''shots''" "demo_start\<lparr>annotations := [(''b.PNG'', 0)]\<rparr>"]
    by (simp add: demo_resumed_def demo_start_def)
  show ?thesis
    using guards_absorb_silently [of demo_start demo_env "- 1"]
      guards_absorb_silently [of demo_resumed demo_env 2] e c
    by (simp add: demo_resumed_fields)
qed

theorem empty_navigation_counterexample:
  "images demo_start = []
   \<and> fst (next_image demo_env demo_start) = None
   \<and> fst (previous_image demo_env demo_start) = None
   \<and> snd (next_image demo_env demo_start) = demo_start
   \<and> snd (previous_image demo_env demo_start) = demo_start
   \<and> classes demo_resumed = [''column'', ''plate'']
   \<and> fst (select_class_by_key (- 1) demo_resumed) = None
   \<and> annotations (snd (select_class_by_key (- 1) demo_resumed)) = annotations demo_resumed
   \<and> store (snd (select_class_by_key (- 1) demo_resumed)) = store demo_resumed"
proof -
  have e: "images demo_start = []" by (simp add: demo_start_def)
  have c: "classes demo_resumed = [''column'', ''plate'']"
    using select_folder_keeps [of demo_env "''shots''" "demo_start\<lparr>annotations := [(''b.PNG'', 0)]\<rparr>"]
    by (simp add: demo_resumed_def demo_start_def)
  show ?thesis
    using e c
    by (simp add: next_image_def previous_image_def select_class_by_key_def on_class_selected_def)
qed

section \<open>The original pane\<close>

lemma max_display_size_unused:
  "display_image env (s\<lparr>max_display_size := m\<rparr>)
   = (fst (display_image env s), (snd (display_image env s))\<lparr>max_display_size := m\<rparr>)"
  by (simp add: display_image_def cannot_load_def progress_text_def Let_def
      split: option.split sum.split)

lemma demo_big_listing:
  "sort (filter (\<lambda>f. endswith (lower f) extensions) [''d.bmp'']) = [''d.bmp'']"
  by code_simp

text \<open>
  C1, at the input where the code departs from it. The configuration allows originals up
  to 800 pixels and sets the resized side to 100; the folder holds one image of 500 by 500
  pixels. The original pane shows the placeholder text, not the image.
\<close>

theorem original_pane_uses_resized_size:
  "max_display_size demo_start = 800
   \<and> resized_image_size demo_start = 100
   \<and> image_open demo_env ''big'' ''d.bmp'' = Inr (500, 500)
   \<and> max_original_side (500, 500) \<le> max_display_size demo_start
   \<and> images (snd (select_folder demo_env ''big'' demo_start)) = [''d.bmp'']
   \<and> original_display (snd (select_folder demo_env ''big'' demo_start))
       = PaneText (too_large_message (500, 500))"
proof -
  let ?s = "demo_start\<lparr>image_folder := ''big''\<rparr>"
  let ?t = "?s\<lparr>images := [''d.bmp''], current_index := 0\<rparr>"
  have l: "listdir demo_env (image_folder ?s) = Some [''d.bmp'']"
    by (simp add: demo_env_def)
  have step: "select_folder demo_env ''big'' demo_start = display_image demo_env ?t"
    using load_images_found [of demo_env ?s, OF l demo_big_listing]
    by (simp add: select_folder_def)
  have opens: "image_open demo_env ''big'' ''d.bmp'' = Inr (500, 500)"
    by (simp add: demo_env_def)
  have shown: "original_display (snd (display_image demo_env ?t))
      = PaneText (too_large_message (500, 500))"
    using display_image_opened [of ?t demo_env "(500, 500)"] opens
    by (simp add: demo_start_def max_original_side_def)
  have config: "max_display_size demo_start = 800 \<and> resized_image_size demo_start = 100
      \<and> max_original_side (500, 500) \<le> max_display_size demo_start"
    by (simp add: demo_start_def max_original_side_def)
  have listed: "images (snd (select_folder demo_env ''big'' demo_start)) = [''d.bmp'']"
    using display_image_frame [of demo_env ?t] by (simp add: step)
  have pane: "original_display (snd (select_folder demo_env ''big'' demo_start))
      = PaneText (too_large_message (500, 500))"
    using shown by (simp add: step)
  show ?thesis
    using config opens listed pane by blast
qed

section \<open>What save writes\<close>

lemma getitem_resolves:
  "getitem xs i \<noteq> None \<longleftrightarrow> - int (length xs) \<le> i \<and> i < int (length xs)"
  by (auto simp add: getitem_def Let_def)

lemma write_rows_written:
  "write_rows cls items out =
     (if list_all (\<lambda>item. getitem cls (snd item) \<noteq> None) items then None else Some IndexError,
      out @ concat (map (row_text cls) (takeWhile (\<lambda>item. getitem cls (snd item) \<noteq> None) items)))"
proof (induction items arbitrary: out)
  case Nil
  then show ?case by simp
next
  case (Cons item items)
  then show ?case
    by (cases item) (auto simp add: row_text_def split: option.split)
qed

lemma save_annotations_written:
  "save_annotations s =
     (if list_all (\<lambda>item. getitem (classes s) (snd item) \<noteq> None) (sort (annotations s))
      then None else Some IndexError,
      s\<lparr>store := Some (header_row @ concat (map (row_text (classes s))
             (takeWhile (\<lambda>item. getitem (classes s) (snd item) \<noteq> None) (sort (annotations s)))))\<rparr>)"
  by (simp add: save_annotations_def write_rows_written)

section \<open>Saving a class index the class list does not have\<close>

text \<open>
  C10 (as amended). If some class index of the dictionary lies outside
  \<open>[-len(classes), len(classes))\<close>, \<open>save_annotations\<close> raises \<open>IndexError\<close> after the file
  has been emptied: the file is left with the header and the rows that sort before the
  first such item. If every class index lies in \<open>[-len(classes), len(classes))\<close>, and so
  in particular if every one lies in \<open>[0, len(classes))\<close>, the save completes and the file
  holds the header and one row per item; a negative index in that range is resolved from
  the end of the class list.
\<close>

theorem save_with_unknown_class:
  "((\<exists>item \<in> set (annotations s).
        snd item < - int (length (classes s)) \<or> int (length (classes s)) \<le> snd item) \<longrightarrow>
      fst (save_annotations s) = Some IndexError
      \<and> store (snd (save_annotations s)) =
          Some (header_row @ concat (map (row_text (classes s))
            (takeWhile (\<lambda>item. - int (length (classes s)) \<le> snd item
                                 \<and> snd item < int (length (classes s)))
               (sort (annotations s))))))
   \<and> ((\<forall>item \<in> set (annotations s).
        - int (length (classes s)) \<le> snd item \<and> snd item < int (length (classes s))) \<longrightarrow>
      fst (save_annotations s) = None
      \<and> store (snd (save_annotations s)) =
          Some (header_row @ concat (map (row_text (classes s)) (sort (annotations s)))))
   \<and> ((\<forall>item \<in> set (annotations s). 0 \<le> snd item \<and> snd item < int (length (classes s))) \<longrightarrow>
      fst (save_annotations s) = None
      \<and> store (snd (save_annotations s)) =
          Some (header_row @ concat (map (row_text (classes s)) (sort (annotations s)))))"
proof -
  let ?ok = "\<lambda>item. getitem (classes s) (snd item) \<noteq> None"
  let ?in = "\<lambda>item. - int (length (classes s)) \<le> snd item \<and> snd item < int (length (classes s))"
  have same: "?ok = ?in"
    by (rule ext) (simp only: getitem_resolves)
  have all: "list_all ?in (sort (annotations s)) \<longleftrightarrow> (\<forall>item \<in> set (annotations s). ?in item)"
    by (simp add: list_all_iff)
  have keep: "takeWhile ?in (sort (annotations s)) = sort (annotations s)"
    if "\<forall>item \<in> set (annotations s). ?in item"
    using that by (simp add: takeWhile_eq_all_conv)
  have saved: "save_annotations s =
     (if list_all ?in (sort (annotations s)) then None else Some IndexError,
      s\<lparr>store := Some (header_row @ concat (map (row_text (classes s))
             (takeWhile ?in (sort (annotations s)))))\<rparr>)"
    using save_annotations_written [of s] by (simp only: same)
  have bad: "fst (save_annotations s) = Some IndexError
      \<and> store (snd (save_annotations s)) =
          Some (header_row @ concat (map (row_text (classes s)) (takeWhile ?in (sort (annotations s)))))"
    if "\<exists>item \<in> set (annotations s).
        snd item < - int (length (classes s)) \<or> int (length (classes s)) \<le> snd item"
  proof -
    have "\<not> (\<forall>item \<in> set (annotations s). ?in item)"
      using that by (meson linorder_not_less)
    then show ?thesis
      using all by (simp add: saved)
  qed
  have good: "fst (save_annotations s) = None
      \<and> store (snd (save_annotations s)) =
          Some (header_row @ concat (map (row_text (classes s)) (sort (annotations s))))"
    if "\<forall>item \<in> set (annotations s). ?in item"
    using that all by (simp add: saved keep [OF that])
  have usual: "fst (save_annotations s) = None
      \<and> store (snd (save_annotations s)) =
          Some (header_row @ concat (map (row_text (classes s)) (sort (annotations s))))"
    if "\<forall>item \<in> set (annotations s). 0 \<le> snd item \<and> snd item < int (length (classes s))"
  proof -
    have "\<forall>item \<in> set (annotations s). ?in item"
      using that by fastforce
    then show ?thesis by (rule good)
  qed
  show ?thesis
    using bad good usual by blast
qed

lemma demo_beyond_rows:
  "sort [(''b.PNG'', 5 :: int), (''a.jpg'', 1)] = [(''a.jpg'', 1), (''b.PNG'', 5)]"
  by simp

lemma str_int_small: "str_int 1 = ''1'' \<and> str_int 5 = ''5'' \<and> str_int (- 1) = ''-1'' \<and> str_int 0 = ''0''"
  by (simp add: str_int_def str_nat.simps digit_char_def)

lemma demo_row_plate:
  "row_text [''column'', ''plate''] (''a.jpg'', 1) = ''a.jpg,1,plate'' @ [CHR 0x0D, CHR 0x0A]"
  by (simp add: row_text_def writerow_def quote_field_def needs_quote_def getitem_def str_int_small)

lemma demo_row_negative:
  "row_text [''column'', ''plate''] (''a.jpg'', - 1) = ''a.jpg,-1,plate'' @ [CHR 0x0D, CHR 0x0A]"
  by (simp add: row_text_def writerow_def quote_field_def needs_quote_def getitem_def str_int_small)

theorem save_with_unknown_class_witness:
  "(''b.PNG'', 5) \<in> set (annotations demo_beyond) \<and> int (length (classes demo_beyond)) \<le> 5
   \<and> fst (save_annotations demo_beyond) = Some IndexError
   \<and> store (snd (save_annotations demo_beyond))
       = Some (header_row @ ''a.jpg,1,plate'' @ [CHR 0x0D, CHR 0x0A])
   \<and> fst (save_annotations demo_resumed) = None"
proof -
  have a: "annotations demo_beyond = [(''b.PNG'', 5), (''a.jpg'', 1)]
      \<and> classes demo_beyond = [''column'', ''plate'']"
    by (simp add: demo_beyond_def demo_start_def)
  have c: "classes demo_resumed = [''column'', ''plate'']"
    using select_folder_keeps [of demo_env "''shots''" "demo_start\<lparr>annotations := [(''b.PNG'', 0)]\<rparr>"]
    by (simp add: demo_resumed_def demo_start_def)
  show ?thesis
    using save_with_unknown_class [of demo_beyond] save_with_unknown_class [of demo_resumed]
    by (simp add: a c demo_resumed_fields demo_beyond_rows demo_row_plate)
qed

theorem negative_index_counterexample:
  "(''a.jpg'', - 1) \<in> set (annotations demo_negative)
   \<and> classes demo_negative = [''column'', ''plate'']
   \<and> \<not> (0 \<le> (- 1 :: int))
   \<and> fst (save_annotations demo_negative) = None
   \<and> store (snd (save_annotations demo_negative))
       = Some (header_row @ ''a.jpg,-1,plate'' @ [CHR 0x0D, CHR 0x0A])"
proof -
  have a: "annotations demo_negative = [(''a.jpg'', - 1)]
      \<and> classes demo_negative = [''column'', ''plate'']"
    by (simp add: demo_negative_def demo_start_def)
  show ?thesis
    using a by (simp add: save_annotations_written getitem_def demo_row_negative)
qed

section \<open>The configuration\<close>

lemma str_contains_empty: "str_contains s []"
  by (cases s) simp_all

lemma str_contains_start: "str_contains (t @ b) t"
proof (cases "t @ b")
  case Nil
  then show ?thesis by simp
next
  case (Cons c s)
  have "take (length t) (t @ b) = t" by simp
  then have "take (length t) (c # s) = t" by (simp only: Cons)
  then show ?thesis by (simp only: Cons str_contains.simps) simp
qed

lemma str_contains_inside: "str_contains (a @ t @ b) t"
proof (induction a)
  case Nil
  then show ?case by (simp add: str_contains_start)
next
  case (Cons c a)
  then show ?case by simp
qed

lemma take_within: "n \<le> length xs \<Longrightarrow> take n (xs @ ys) = take n xs"
  by simp

lemma str_contains_prefix: "str_contains a t \<Longrightarrow> str_contains (a @ b) t"
proof (induction a)
  case Nil
  then show ?case by (simp add: str_contains_empty)
next
  case (Cons c a)
  have "take (length t) ((c # a) @ b) = t" if "take (length t) (c # a) = t"
  proof -
    have "min (length (c # a)) (length t) = length t"
      using arg_cong [OF that, of length] by simp
    then have "length t \<le> length (c # a)"
      by linarith
    then have "take (length t) ((c # a) @ b) = take (length t) (c # a)"
      by (rule take_within)
    then show ?thesis using that by (simp only:)
  qed
  then show ?case using Cons by auto
qed

lemma field_required_names: "str_contains (field_required k) ([CHR 0x27] @ k @ [CHR 0x27])"
proof -
  have "field_required k = ''The '' @ ([CHR 0x27] @ k @ [CHR 0x27]) @ '' field is required in the configuration file.''"
    by (simp add: field_required_def)
  then show ?thesis
    using str_contains_inside [of "''The ''" "[CHR 0x27] @ k @ [CHR 0x27]"] by simp
qed

lemma not_a_list_names:
  "str_contains (''The '' @ [CHR 0x27] @ ''classes'' @ [CHR 0x27] @ '' field must be a list of strings.'')
     ([CHR 0x27] @ ''classes'' @ [CHR 0x27])"
  using str_contains_inside [of "''The ''" "[CHR 0x27] @ ''classes'' @ [CHR 0x27]"
      "'' field must be a list of strings.''"]
  by simp

lemma no_class_names:
  "str_contains ''The configuration file must contain at least one class.'' ''class''"
  using str_contains_inside [of "''The configuration file must contain at least one ''" "''class''" "''.''"]
  by simp

lemma too_many_names:
  "str_contains (''Number of classes must not exceed 9 (currently '' @ n @ rest) ''class''"
  using str_contains_inside [of "''Number of ''" "''class''" "''es must not exceed 9 (currently '' @ n @ rest"]
  by simp

lemma load_config_classes_absent:
  "dict_get p ''classes'' = None \<Longrightarrow>
   load_config path (Payload p) = Inl (KeyError (field_required ''classes''))"
  by (simp add: load_config_def)

lemma load_config_classes_other:
  "dict_get p ''classes'' = Some v \<Longrightarrow> \<forall>cls. v \<noteq> JList cls \<Longrightarrow>
   load_config path (Payload p) =
     Inl (TypeError (''The '' @ [CHR 0x27] @ ''classes'' @ [CHR 0x27] @ '' field must be a list of strings.''))"
  by (cases v) (simp_all add: load_config_def)

lemma load_config_classes_list:
  "dict_get p ''classes'' = Some (JList cls) \<Longrightarrow>
   load_config path (Payload p) =
     (if length cls = 0 then
        Inl (ValueError ''The configuration file must contain at least one class.'')
      else if length cls > 9 then
        Inl (ValueError
               (''Number of classes must not exceed 9 (currently '' @ str_nat (length cls) @
                '').'' @ line_feed @ ''Keyboard shortcuts are limited to keys 1-9.''))
      else
        (case dict_get p ''annotations_file'' of
           None \<Rightarrow> Inl (KeyError (field_required ''annotations_file''))
         | Some file_name \<Rightarrow>
             (case dict_get p ''resized_image_size'' of
                None \<Rightarrow> Inl (KeyError (field_required ''resized_image_size''))
              | Some resized \<Rightarrow>
                  (case dict_get p ''max_original_display_size'' of
                     None \<Rightarrow> Inl (KeyError (field_required ''max_original_display_size''))
                   | Some max_display \<Rightarrow>
                       Inr \<lparr>classes_value = cls,
                            annotations_file_value = file_name,
                            resized_image_size_value = resized,
                            max_display_size_value = max_display\<rparr>))))"
  by (simp add: load_config_def)

text \<open>
  C5 (as amended). For a configuration that is a JSON object, \<open>load_config\<close> succeeds
  exactly when \<open>classes\<close> is a list of one to nine entries and the other three keys are
  present, and then it takes their values as they are, whatever their types. When it
  fails, either the message names, between quotes, a required key that is absent (or
  \<open>classes\<close> when its value is not a list), or \<open>classes\<close> is a list that is empty or
  longer than nine and the message states the rule on the number of classes.
\<close>

theorem config_validation:
  "(\<forall>c. load_config path (Payload p) = Inr c \<longleftrightarrow>
       (\<exists>cls a r m. dict_get p ''classes'' = Some (JList cls) \<and> 1 \<le> length cls \<and> length cls \<le> 9
          \<and> dict_get p ''annotations_file'' = Some a
          \<and> dict_get p ''resized_image_size'' = Some r
          \<and> dict_get p ''max_original_display_size'' = Some m
          \<and> c = \<lparr>classes_value = cls, annotations_file_value = a,
                   resized_image_size_value = r, max_display_size_value = m\<rparr>))
   \<and> (\<forall>e. load_config path (Payload p) = Inl e \<longrightarrow>
        (\<exists>k \<in> set required_keys.
            str_contains (message e) ([CHR 0x27] @ k @ [CHR 0x27])
            \<and> (dict_get p k = None
                \<or> (k = ''classes'' \<and> (\<forall>cls. dict_get p k \<noteq> Some (JList cls)))))
        \<or> (\<exists>cls. dict_get p ''classes'' = Some (JList cls) \<and> (cls = [] \<or> 9 < length cls)
              \<and> str_contains (message e) ''class''))"
proof (cases "dict_get p ''classes''")
  case None
  then show ?thesis
    using field_required_names [of "''classes''"]
    by (auto simp add: load_config_classes_absent required_keys_def)
next
  case (Some v)
  show ?thesis
  proof (cases "\<exists>cls. v = JList cls")
    case False
    then have other: "\<forall>cls. v \<noteq> JList cls" by simp
    show ?thesis
      using not_a_list_names other Some
      by (auto simp add: load_config_classes_other [OF Some other] required_keys_def)
  next
    case True
    then obtain cls where v: "v = JList cls" by blast
    have l: "dict_get p ''classes'' = Some (JList cls)"
      using Some v by simp
    show ?thesis
      using no_class_names too_many_names
        field_required_names [of "''annotations_file''"]
        field_required_names [of "''resized_image_size''"]
        field_required_names [of "''max_original_display_size''"]
      by (auto simp add: load_config_classes_list [OF l] l required_keys_def Suc_le_eq
          split: option.split)
  qed
qed

lemma demo_payload_members:
  "dict_get demo_payload ''classes'' = Some (JList [JString ''column'', JString ''plate''])
   \<and> dict_get demo_payload ''annotations_file'' = Some (JString ''annotations.csv'')
   \<and> dict_get demo_payload ''resized_image_size'' = Some (JInt (- 5))
   \<and> dict_get demo_payload ''max_original_display_size'' = Some (JString ''large'')"
  by (simp add: dict_get_def demo_payload_def)

lemma demo_incomplete_members:
  "dict_get demo_incomplete ''classes'' = Some (JList [JString ''column''])
   \<and> dict_get demo_incomplete ''annotations_file'' = None"
  by (simp add: dict_get_def demo_incomplete_def)

theorem config_validation_witness:
  "load_config ''config.json'' (Payload demo_incomplete)
     = Inl (KeyError (field_required ''annotations_file''))
   \<and> dict_get demo_incomplete ''annotations_file'' = None
   \<and> ''annotations_file'' \<in> set required_keys
   \<and> str_contains (message (KeyError (field_required ''annotations_file'')))
        ([CHR 0x27] @ ''annotations_file'' @ [CHR 0x27])
   \<and> (\<exists>c. load_config ''config.json'' (Payload demo_payload) = Inr c)"
proof -
  have failed: "load_config ''config.json'' (Payload demo_incomplete)
      = Inl (KeyError (field_required ''annotations_file''))"
    using demo_incomplete_members by (simp add: load_config_classes_list)
  have named: "str_contains (message (KeyError (field_required ''annotations_file'')))
        ([CHR 0x27] @ ''annotations_file'' @ [CHR 0x27])"
    using field_required_names [of "''annotations_file''"] by simp
  have loads: "\<exists>c. load_config ''config.json'' (Payload demo_payload) = Inr c"
    using config_validation [of "''config.json''" demo_payload] demo_payload_members
    by simp
  show ?thesis
    using config_validation [of "''config.json''" demo_incomplete] failed named loads
      demo_incomplete_members
    by (simp add: required_keys_def)
qed

theorem unchecked_sizes_counterexample:
  "dict_get demo_payload ''resized_image_size'' = Some (JInt (- 5))
   \<and> dict_get demo_payload ''max_original_display_size'' = Some (JString ''large'')
   \<and> load_config ''config.json'' (Payload demo_payload)
       = Inr \<lparr>classes_value = [JString ''column'', JString ''plate''],
              annotations_file_value = JString ''annotations.csv'',
              resized_image_size_value = JInt (- 5),
              max_display_size_value = JString ''large''\<rparr>"
  using demo_payload_members by (simp add: load_config_classes_list)

section \<open>The resized image\<close>












section \<open>Loading the annotations file\<close>

lemma setitem_keys: "fst ` set (setitem k v d) = insert k (fst ` set d)"
proof (induction d)
  case Nil
  then show ?case by simp
next
  case (Cons item d)
  then show ?case by (cases item) (simp add: insert_commute)
qed

lemma setitem_distinct: "distinct (map fst d) \<Longrightarrow> distinct (map fst (setitem k v d))"
proof (induction d)
  case Nil
  then show ?case by simp
next
  case (Cons item d)
  then show ?case
    using setitem_keys [of k v d] by (cases item) auto
qed

lemma map_of_setitem_other: "k' \<noteq> k \<Longrightarrow> map_of (setitem k v d) k' = map_of d k'"
  by (induction d) auto

lemma store_all_distinct: "distinct (map fst d) \<Longrightarrow> distinct (map fst (store_all entries d))"
  unfolding store_all_def
  by (induction entries arbitrary: d) (simp_all add: setitem_distinct)

lemma store_all_lookup:
  "map_of (store_all entries d) name =
     (if filter (\<lambda>entry. fst entry = name) entries = [] then map_of d name
      else Some (snd (last (filter (\<lambda>entry. fst entry = name) entries))))"
  unfolding store_all_def
proof (induction entries arbitrary: d)
  case Nil
  then show ?case by simp
next
  case (Cons entry entries)
  show ?case
  proof (cases "fst entry = name")
    case True
    then show ?thesis
      using Cons [of "setitem (fst entry) (snd entry) d"] by (simp add: map_of_setitem)
  next
    case False
    then show ?thesis
      using Cons [of "setitem (fst entry) (snd entry) d"] by (simp add: map_of_setitem_other)
  qed
qed

lemma load_rows_entries:
  "load_rows fieldnames ann rows = (None, ann') \<Longrightarrow>
   ann' = store_all (List.map_filter (row_entry fieldnames) (filter (\<lambda>row. row \<noteq> []) rows)) ann
   \<and> length (List.map_filter (row_entry fieldnames) (filter (\<lambda>row. row \<noteq> []) rows))
       = length (filter (\<lambda>row. row \<noteq> []) rows)"
proof (induction rows arbitrary: ann)
  case Nil
  then show ?case by (simp add: store_all_def List.map_filter_simps)
next
  case (Cons row rows)
  show ?case
  proof (cases "row = []")
    case True
    then show ?thesis using Cons by simp
  next
    case False
    from Cons.prems False obtain index_text class_idx name where
      t: "row_get (row_dict fieldnames row) ''class_index'' = Some (Some index_text)"
      and v: "py_int index_text = Inr class_idx"
      and n: "row_get (row_dict fieldnames row) ''filename'' = Some (Some name)"
      and rest: "load_rows fieldnames (setitem name class_idx ann) rows = (None, ann')"
      by (auto split: option.splits sum.splits)
    have entry: "row_entry fieldnames row = Some (name, class_idx)"
      using t v n by (simp add: row_entry_def)
    show ?thesis
      using Cons.IH [OF rest] False entry
      by (simp add: List.map_filter_simps store_all_def)
  qed
qed

lemma filter_entries_empty:
  "filter (\<lambda>entry. fst entry = name) entries = [] \<longleftrightarrow> name \<notin> fst ` set entries"
  by (auto simp add: filter_empty_conv)

lemma one_entry:
  "distinct (map fst d) \<Longrightarrow> map_of d name = Some v \<Longrightarrow>
   length (filter (\<lambda>item. fst item = name) d) = 1"
proof (induction d)
  case Nil
  then show ?case by simp
next
  case (Cons item d)
  show ?case
  proof (cases "fst item = name")
    case True
    have "name \<notin> fst ` set d"
      using Cons.prems(1) True by auto
    then have "filter (\<lambda>item. fst item = name) d = []"
      using filter_entries_empty [of name d] by blast
    then show ?thesis using True by simp
  next
    case False
    then have "map_of d name = Some v"
      using Cons.prems(2) by (cases item) (auto split: if_splits)
    then show ?thesis
      using Cons.IH Cons.prems(1) False by simp
  qed
qed

text \<open>
  C8. When the annotations file does not exist, \<open>load_previous_annotations\<close> raises
  nothing and leaves the dictionary as it is (empty at startup). When the file exists and
  loading it raises nothing, the dictionary started empty has distinct keys, every
  record after the header has given an entry, and each filename of the file is a key
  exactly once, with the class index of the last record that has that filename.
\<close>

theorem load_keeps_last_row:
  "(store s = None \<longrightarrow> load_previous_annotations s = (None, s))
   \<and> (\<forall>content s'. store s = Some content \<and> annotations s = []
          \<and> load_previous_annotations s = (None, s') \<longrightarrow>
        distinct (map fst (annotations s'))
        \<and> length (store_entries content)
            = length (filter (\<lambda>row. row \<noteq> []) (tl (fst (store_rows content))))
        \<and> (\<forall>name. name \<in> fst ` set (store_entries content) \<longrightarrow>
              length (filter (\<lambda>item. fst item = name) (annotations s')) = 1
              \<and> map_of (annotations s') name
                  = Some (snd (last (filter (\<lambda>entry. fst entry = name) (store_entries content)))))
        \<and> (\<forall>name. name \<notin> fst ` set (store_entries content) \<longrightarrow>
              map_of (annotations s') name = None))"
proof -
  have missing: "store s = None \<longrightarrow> load_previous_annotations s = (None, s)"
    by (simp add: load_previous_annotations_def)
  have loaded: "distinct (map fst (annotations s'))
        \<and> length (store_entries content)
            = length (filter (\<lambda>row. row \<noteq> []) (tl (fst (store_rows content))))
        \<and> (\<forall>name. name \<in> fst ` set (store_entries content) \<longrightarrow>
              length (filter (\<lambda>item. fst item = name) (annotations s')) = 1
              \<and> map_of (annotations s') name
                  = Some (snd (last (filter (\<lambda>entry. fst entry = name) (store_entries content)))))
        \<and> (\<forall>name. name \<notin> fst ` set (store_entries content) \<longrightarrow>
              map_of (annotations s') name = None)"
    if st: "store s = Some content" and em: "annotations s = []"
      and ld: "load_previous_annotations s = (None, s')" for content s'
  proof (cases "fst (store_rows content)")
    case Nil
    then have "s' = s"
      using st ld by (cases "store_rows content") (auto simp add: load_previous_annotations_def)
    then show ?thesis
      using em Nil by (simp add: store_entries_def)
  next
    case (Cons fieldnames rows)
    obtain e where sr: "store_rows content = (fieldnames # rows, e)"
      using Cons by (cases "store_rows content") auto
    obtain ann where lr: "load_rows fieldnames [] rows = (None, ann)"
      and s': "annotations s' = ann"
      using st em ld sr
      by (auto simp add: load_previous_annotations_def split: prod.splits option.splits)
    have entries: "store_entries content
        = List.map_filter (row_entry fieldnames) (filter (\<lambda>row. row \<noteq> []) rows)"
      using Cons by (simp add: store_entries_def)
    have ann: "ann = store_all (store_entries content) []"
      and len: "length (store_entries content) = length (filter (\<lambda>row. row \<noteq> []) rows)"
      using load_rows_entries [OF lr] entries by simp_all
    have d: "distinct (map fst ann)"
      using store_all_distinct [of "[]" "store_entries content"] ann by simp
    have look: "map_of ann name =
        (if name \<notin> fst ` set (store_entries content) then None
         else Some (snd (last (filter (\<lambda>entry. fst entry = name) (store_entries content)))))" for name
      using store_all_lookup [of "store_entries content" "[]" name] filter_entries_empty [of name "store_entries content"] ann
      by simp
    have once: "length (filter (\<lambda>item. fst item = name) ann) = 1"
      if "name \<in> fst ` set (store_entries content)" for name
      using one_entry [OF d] look [of name] that by simp
    show ?thesis
      using d len look once s' Cons by simp
  qed
  show ?thesis
    using missing loaded by blast
qed

lemma demo_store_text:
  "demo_store = ''filename,class_index,class_name'' @ [CHR 0x0D, CHR 0x0A]
     @ ''a.jpg,0,column'' @ [CHR 0x0D, CHR 0x0A]
     @ ''b.PNG,1,plate'' @ [CHR 0x0D, CHR 0x0A]
     @ ''a.jpg,1,plate'' @ [CHR 0x0D, CHR 0x0A]"
  by (simp add: demo_store_def header_row_def writerow_def quote_field_def needs_quote_def)

lemma demo_store_lines:
  "file_lines [] (universal_newlines demo_store) =
     [''filename,class_index,class_name'' @ [CHR 0x0A],
      ''a.jpg,0,column'' @ [CHR 0x0A],
      ''b.PNG,1,plate'' @ [CHR 0x0A],
      ''a.jpg,1,plate'' @ [CHR 0x0A]]"
  by (simp add: demo_store_text)


lemmas reader_defs =
  process_line_def parse_process_char_def start_field_def line_end_def after_line_end_def
  parse_reset_def parse_save_field_def parse_add_char_def

lemma demo_store_rows:
  "store_rows demo_store =
     ([[''filename'', ''class_index'', ''class_name''],
       [''a.jpg'', ''0'', ''column''], [''b.PNG'', ''1'', ''plate''],
       [''a.jpg'', ''1'', ''plate'']], None)"
  by (simp add: store_rows_def demo_store_lines reader_defs)

lemma py_int_small: "py_int ''0'' = Inr 0 \<and> py_int ''1'' = Inr 1"
  by (simp add: py_int_def strip_def is_space_def is_digit_def digits_value_def digit_value_def)

lemma demo_store_entries:
  "store_entries demo_store = [(''a.jpg'', 0), (''b.PNG'', 1), (''a.jpg'', 1)]"
  by (simp add: store_entries_def demo_store_rows List.map_filter_simps row_entry_def
      row_dict_def row_get_def py_int_small)

lemma demo_stored_loaded:
  "load_previous_annotations demo_stored
     = (None, demo_stored\<lparr>annotations := [(''a.jpg'', 1), (''b.PNG'', 1)]\<rparr>)"
  by (simp add: load_previous_annotations_def demo_stored_def demo_start_def demo_store_rows
      row_dict_def row_get_def py_int_small)

theorem load_keeps_last_row_witness:
  "store demo_start = None
   \<and> load_previous_annotations demo_start = (None, demo_start)
   \<and> store demo_stored = Some demo_store
   \<and> annotations demo_stored = []
   \<and> load_previous_annotations demo_stored
       = (None, demo_stored\<lparr>annotations := [(''a.jpg'', 1), (''b.PNG'', 1)]\<rparr>)
   \<and> filter (\<lambda>entry. fst entry = ''a.jpg'') (store_entries demo_store)
       = [(''a.jpg'', 0), (''a.jpg'', 1)]
   \<and> length (filter (\<lambda>item. fst item = ''a.jpg'')
         (annotations (demo_stored\<lparr>annotations := [(''a.jpg'', 1), (''b.PNG'', 1)]\<rparr>))) = 1
   \<and> map_of (annotations (demo_stored\<lparr>annotations := [(''a.jpg'', 1), (''b.PNG'', 1)]\<rparr>)) ''a.jpg''
       = Some 1"
proof -
  have none: "store demo_start = None"
    by (simp add: demo_start_def)
  have exists: "store demo_stored = Some demo_store \<and> annotations demo_stored = []"
    by (simp add: demo_stored_def demo_start_def)
  have twice: "filter (\<lambda>entry. fst entry = ''a.jpg'') (store_entries demo_store)
       = [(''a.jpg'', 0), (''a.jpg'', 1)]"
    by (simp add: demo_store_entries)
  show ?thesis
    using load_keeps_last_row [of demo_start] load_keeps_last_row [of demo_stored]
      none exists twice demo_stored_loaded
    by simp
qed

section \<open>Saving, loading and saving again\<close>

lemma header_row_text: "header_row = ''filename,class_index,class_name'' @ [CHR 0x0D, CHR 0x0A]"
  by (simp add: header_row_def writerow_def quote_field_def needs_quote_def)

lemma demo_cr_row:
  "row_text [''column'', ''plate''] (''a'' @ [CHR 0x0D] @ ''b.png'', 0)
     = [CHR 0x22] @ ''a'' @ [CHR 0x0D] @ ''b.png'' @ [CHR 0x22] @ '',0,column'' @ [CHR 0x0D, CHR 0x0A]"
  by (simp add: row_text_def writerow_def quote_field_def needs_quote_def double_quotes_def
      getitem_def str_int_small)

lemma demo_lf_row:
  "row_text [''column'', ''plate''] (''a'' @ [CHR 0x0A] @ ''b.png'', 0)
     = [CHR 0x22] @ ''a'' @ [CHR 0x0A] @ ''b.png'' @ [CHR 0x22] @ '',0,column'' @ [CHR 0x0D, CHR 0x0A]"
  by (simp add: row_text_def writerow_def quote_field_def needs_quote_def double_quotes_def
      getitem_def str_int_small)

lemma demo_cr_saved: "save_annotations demo_cr = (None, demo_cr\<lparr>store := Some demo_cr_store\<rparr>)"
proof -
  have a: "annotations demo_cr = [(''a'' @ [CHR 0x0D] @ ''b.png'', 0)]
      \<and> classes demo_cr = [''column'', ''plate'']"
    by (simp add: demo_cr_def demo_start_def)
  show ?thesis
    using a demo_cr_row
    by (simp add: save_annotations_written getitem_def demo_cr_store_def)
qed

lemma demo_cr_lines:
  "file_lines [] (universal_newlines demo_cr_store) =
     [''filename,class_index,class_name'' @ [CHR 0x0A],
      [CHR 0x22] @ ''a'' @ [CHR 0x0A],
      ''b.png'' @ [CHR 0x22] @ '',0,column'' @ [CHR 0x0A]]"
  by (simp add: demo_cr_store_def header_row_text)

lemma demo_cr_rows:
  "store_rows demo_cr_store =
     ([[''filename'', ''class_index'', ''class_name''],
       [''a'' @ [CHR 0x0A] @ ''b.png'', ''0'', ''column'']], None)"
  by (simp add: store_rows_def demo_cr_lines reader_defs)

lemma demo_cr_loaded:
  "load_previous_annotations demo_cr_restarted
     = (None, demo_cr_restarted\<lparr>annotations := [(''a'' @ [CHR 0x0A] @ ''b.png'', 0)]\<rparr>)"
  by (simp add: load_previous_annotations_def demo_cr_restarted_def demo_start_def demo_cr_rows
      row_dict_def row_get_def py_int_small)

lemma save_annotations_idempotent:
  "save_annotations (snd (save_annotations s)) = save_annotations s"
  by (simp add: save_annotations_written)

text \<open>
  C3, at the input where the code departs from it. One image whose name holds a carriage
  return is labelled and saved; the program is started again on the file it wrote. The
  name comes back with a line feed in place of the carriage return, so the dictionary
  differs and saving it writes a different file.
\<close>

theorem carriage_return_round_trip:
  "annotations demo_cr = [(''a'' @ [CHR 0x0D] @ ''b.png'', 0)]
   \<and> fst (save_annotations demo_cr) = None
   \<and> store (snd (save_annotations demo_cr)) = Some demo_cr_store
   \<and> store demo_cr_restarted = store (snd (save_annotations demo_cr))
   \<and> annotations demo_cr_restarted = []
   \<and> fst (load_previous_annotations demo_cr_restarted) = None
   \<and> annotations (snd (load_previous_annotations demo_cr_restarted))
       = [(''a'' @ [CHR 0x0A] @ ''b.png'', 0)]
   \<and> fst (save_annotations (snd (load_previous_annotations demo_cr_restarted))) = None
   \<and> store (snd (save_annotations (snd (load_previous_annotations demo_cr_restarted))))
       \<noteq> store (snd (save_annotations demo_cr))"
proof -
  let ?loaded = "demo_cr_restarted\<lparr>annotations := [(''a'' @ [CHR 0x0A] @ ''b.png'', 0)]\<rparr>"
  have start: "annotations demo_cr = [(''a'' @ [CHR 0x0D] @ ''b.png'', 0)]"
    by (simp add: demo_cr_def)
  have restarted: "store demo_cr_restarted = Some demo_cr_store \<and> annotations demo_cr_restarted = []
      \<and> classes demo_cr_restarted = [''column'', ''plate'']"
    by (simp add: demo_cr_restarted_def demo_start_def)
  have again: "save_annotations ?loaded
      = (None, ?loaded\<lparr>store := Some (header_row @ [CHR 0x22] @ ''a'' @ [CHR 0x0A] @ ''b.png''
            @ [CHR 0x22] @ '',0,column'' @ [CHR 0x0D, CHR 0x0A])\<rparr>)"
    using restarted demo_lf_row by (simp add: save_annotations_written getitem_def)
  have differs: "header_row @ [CHR 0x22] @ ''a'' @ [CHR 0x0A] @ ''b.png''
            @ [CHR 0x22] @ '',0,column'' @ [CHR 0x0D, CHR 0x0A] \<noteq> demo_cr_store"
    by (simp add: demo_cr_store_def)
  show ?thesis
    using start restarted again differs
    by (simp add: demo_cr_saved demo_cr_loaded)
qed

end
